theory Spec2Isabelle
  imports Main "HOL-Library.Word"
begin

section \<open>Errors\<close>

text \<open>
  The engine throws two kinds of objects: a \<^verbatim>\<open>TemotoErrorStack\<close> (a stack of frames)
  and objects derived from \<^verbatim>\<open>std::exception\<close> (carrying \<^verbatim>\<open>what()\<close>). A function that can
  throw returns \<open>thrown option\<close> next to the state it leaves behind: \<open>None\<close> is a normal
  return, \<open>Some e\<close> is the exception that leaves the function.
\<close>

type_synonym uint = "32 word"

datatype thrown = TemotoErrorStack "string list" | StdException string

text \<open>
  Modelled from the spec: the macros of \<^verbatim>\<open>temoto_error.h\<close> are not part of the sources.
  Creating an error stack makes a stack of one frame holding the message; forwarding
  prepends a frame that identifies the forwarding layer (here: the function's name).
\<close>

definition CREATE_TEMOTO_ERROR_STACK :: "string \<Rightarrow> thrown" where
  "CREATE_TEMOTO_ERROR_STACK msg = TemotoErrorStack [msg]"

definition FORWARD_TEMOTO_ERROR_STACK :: "string \<Rightarrow> string list \<Rightarrow> thrown" where
  "FORWARD_TEMOTO_ERROR_STACK layer frames = TemotoErrorStack (layer # frames)"

section \<open>ActionBase (action\_base.h)\<close>

text \<open>
  What may escape the user-written \<^verbatim>\<open>executeAction()\<close>: an error stack, a
  \<^verbatim>\<open>std::exception\<close>, or any other object (the \<^verbatim>\<open>catch(...)\<close> clause).
\<close>

datatype escaped = Thrown thrown | OtherException

record 'u action_base =
  STOP_REQUESTED :: bool
  umrf_node :: 'u
  umrf_set :: bool

text \<open>A freshly constructed object: the member initialisers of the class.\<close>

definition ActionBase :: "'u \<Rightarrow> 'u action_base" where
  "ActionBase default_node = \<lparr>STOP_REQUESTED = False, umrf_node = default_node, umrf_set = False\<rparr>"

definition isInitialized :: "'u action_base \<Rightarrow> bool" where
  "isInitialized a = umrf_set a"

definition setUmrf :: "'u \<Rightarrow> 'u action_base \<Rightarrow> 'u action_base" where
  "setUmrf umrf a = a\<lparr>umrf_node := umrf, umrf_set := True\<rparr>"

definition stopActionBase :: "'u action_base \<Rightarrow> bool \<times> 'u action_base" where
  "stopActionBase a = (True, a\<lparr>STOP_REQUESTED := True\<rparr>)"

definition actionOk :: "'u action_base \<Rightarrow> bool" where
  "actionOk a = (\<not> STOP_REQUESTED a)"

text \<open>
  \<^verbatim>\<open>executeAction\<close> is pure virtual: the body is a parameter, a function from the object
  to the exception that escapes it (if any) and the object it leaves behind.
\<close>

definition executeActionWrapped ::
  "('u action_base \<Rightarrow> escaped option \<times> 'u action_base) \<Rightarrow> 'u action_base
     \<Rightarrow> thrown option \<times> 'u action_base" where
  "executeActionWrapped executeAction a =
     (if \<not> isInitialized a
      then (Some (CREATE_TEMOTO_ERROR_STACK
                    ''Failed to execute the action because the UMRF is uninitialised''), a)
      else (case executeAction a of
              (None, a') \<Rightarrow> (None, a')
            | (Some (Thrown (TemotoErrorStack e)), a') \<Rightarrow>
                (Some (FORWARD_TEMOTO_ERROR_STACK ''executeActionWrapped'' e), a')
            | (Some (Thrown (StdException w)), a') \<Rightarrow> (Some (CREATE_TEMOTO_ERROR_STACK w), a')
            | (Some OtherException, a') \<Rightarrow>
                (Some (CREATE_TEMOTO_ERROR_STACK ''Caught an unhandled error.''), a')))"

section \<open>Action parameters\<close>

text \<open>
  Modelled from the spec: \<^verbatim>\<open>action_parameters.h\<close> is not part of the sources. A parameter
  is the tuple (name, type, required, updatable, allowed values, data); a parameter bag is a
  set of parameters keyed by name, written here as a list whose names are distinct
  (\<open>wf_parameters\<close>).
\<close>

record parameter =
  pname :: string
  ptype :: string
  prequired :: bool
  pupdatable :: bool
  pallowed :: "string list"
  pdata :: string

type_synonym ActionParameters = "parameter list"

definition wf_parameters :: "ActionParameters \<Rightarrow> bool" where
  "wf_parameters ps = distinct (map pname ps)"

text \<open>Structural equality: everything except the data.\<close>

definition isEqualNoData :: "parameter \<Rightarrow> parameter \<Rightarrow> bool" where
  "isEqualNoData p q =
     (pname p = pname q \<and> ptype p = ptype q \<and> prequired p = prequired q \<and>
      pupdatable p = pupdatable q \<and> pallowed p = pallowed q)"

text \<open>Structural-no-update equality: everything except the data and the updatable flag.\<close>

definition isEqualNoDataNoUpdate :: "parameter \<Rightarrow> parameter \<Rightarrow> bool" where
  "isEqualNoDataNoUpdate p q =
     (pname p = pname q \<and> ptype p = ptype q \<and> prequired p = prequired q \<and>
      pallowed p = pallowed q)"

definition getDataSize :: "parameter \<Rightarrow> nat" where
  "getDataSize p = length (pdata p)"


definition getParameter :: "ActionParameters \<Rightarrow> string \<Rightarrow> parameter option" where
  "getParameter ps n = find (\<lambda>p. pname p = n) ps"

definition getParameterCount :: "ActionParameters \<Rightarrow> nat" where
  "getParameterCount ps = length ps"



text \<open>
  \<^verbatim>\<open>copy_parameters(other)\<close>: for each parameter in \<open>other\<close> present here, overwrite the
  data only.
\<close>

definition copyParameters :: "ActionParameters \<Rightarrow> ActionParameters \<Rightarrow> ActionParameters" where
  "copyParameters other ps =
     map (\<lambda>p. case find (\<lambda>q. pname q = pname p) other of
                 None \<Rightarrow> p
               | Some q \<Rightarrow> p\<lparr>pdata := pdata q\<rparr>) ps"

section \<open>Umrf (umrf.cpp)\<close>

text \<open>
  Modelled from the spec: the class \<^verbatim>\<open>Umrf::Relation\<close> is declared in \<^verbatim>\<open>umrf.h\<close>, which is
  not part of the sources. A relation is the pair (name, suffix) identifying another node,
  with the flags \<open>required\<close> and \<open>received\<close>; two relations are equal when they identify the
  same node.
\<close>

record relation =
  rname :: string
  rsuffix :: uint
  required :: bool
  received :: bool

definition rel_eq :: "relation \<Rightarrow> relation \<Rightarrow> bool" where
  "rel_eq a b = (rname a = rname b \<and> rsuffix a = rsuffix b)"

text \<open>The members of \<^verbatim>\<open>Umrf\<close>, as its copy constructor lists them.\<close>

record umrf =
  name :: string
  description :: string
  package_name :: string
  suffix :: uint
  umrf_notation :: string
  effect :: string
  library_path :: string
  parents :: "relation list"
  children :: "relation list"
  umrf_id :: uint
  full_name :: string
  input_parameters :: ActionParameters
  output_parameters :: ActionParameters

text \<open>\<^verbatim>\<open>std::to_string\<close> of an unsigned number: its decimal digits.\<close>

fun to_string :: "nat \<Rightarrow> string" where
  "to_string n =
     (if n < 10 then [''0123456789'' ! n]
      else to_string (n div 10) @ [''0123456789'' ! (n mod 10)])"

text \<open>\<^verbatim>\<open>std::find(begin, end, x)\<close>: the position of the first element equal to \<open>x\<close>.\<close>

fun std_find :: "('a \<Rightarrow> bool) \<Rightarrow> 'a list \<Rightarrow> nat option" where
  "std_find eq [] = None"
| "std_find eq (y # ys) =
     (if eq y then Some 0 else map_option Suc (std_find eq ys))"

definition setName :: "string \<Rightarrow> umrf \<Rightarrow> bool \<times> umrf" where
  "setName n u =
     (if n \<noteq> [] then (True, u\<lparr>name := n, full_name := n @ ''_'' @ to_string (unat (suffix u))\<rparr>)
      else (False, u))"

definition setSuffix :: "uint \<Rightarrow> umrf \<Rightarrow> bool \<times> umrf" where
  "setSuffix sfx u =
     (True, u\<lparr>suffix := sfx, full_name := name u @ ''_'' @ to_string (unat sfx)\<rparr>)"

definition setId :: "uint \<Rightarrow> umrf \<Rightarrow> bool \<times> umrf" where
  "setId i u = (True, u\<lparr>umrf_id := i\<rparr>)"

definition isUmrfCorrect :: "umrf \<Rightarrow> bool" where
  "isUmrfCorrect u = (name u \<noteq> [] \<and> library_path u \<noteq> [])"


text \<open>
  \<^verbatim>\<open>inputParametersReceived\<close>: the loop leaves with \<open>false\<close> at the first required parameter
  without data.
\<close>

definition inputParametersReceived :: "umrf \<Rightarrow> bool" where
  "inputParametersReceived u =
     list_all (\<lambda>p. \<not> (prequired p \<and> getDataSize p = 0)) (input_parameters u)"

definition copyInputParameters :: "ActionParameters \<Rightarrow> umrf \<Rightarrow> bool \<times> umrf" where
  "copyInputParameters action_parameters u =
     (let u' = u\<lparr>input_parameters := copyParameters action_parameters (input_parameters u)\<rparr>
      in (inputParametersReceived u', u'))"



text \<open>\<^verbatim>\<open>isEqual\<close>: the checks in the order of the source; each failed check returns \<open>false\<close>.\<close>

definition isEqual :: "umrf \<Rightarrow> umrf \<Rightarrow> bool \<Rightarrow> bool" where
  "isEqual u umrf_in check_updatable =
     (if name u \<noteq> name umrf_in \<or> suffix u \<noteq> suffix umrf_in \<or>
         umrf_notation u \<noteq> umrf_notation umrf_in \<or> effect u \<noteq> effect umrf_in
      then False
      else if length (children u) \<noteq> length (children umrf_in) \<or>
              length (parents u) \<noteq> length (parents umrf_in)
      then False
      else if list_ex (\<lambda>parent_in. std_find (\<lambda>p. rel_eq p parent_in) (parents u) = None)
                (parents umrf_in)
      then False
      else if list_ex (\<lambda>child_in. std_find (\<lambda>c. rel_eq c child_in) (children u) = None)
                (children umrf_in)
      then False
      else if getParameterCount (input_parameters u) \<noteq>
                getParameterCount (input_parameters umrf_in) \<or>
              getParameterCount (output_parameters u) \<noteq>
                getParameterCount (output_parameters umrf_in)
      then False
      else if list_ex (\<lambda>input_param.
                  case getParameter (input_parameters umrf_in) (pname input_param) of
                    None \<Rightarrow> True
                  | Some q \<Rightarrow>
                      if check_updatable then \<not> isEqualNoData input_param q
                      else \<not> isEqualNoDataNoUpdate input_param q)
                (input_parameters u)
      then False
      else if list_ex (\<lambda>output_param.
                  case getParameter (output_parameters umrf_in) (pname output_param) of
                    None \<Rightarrow> True
                  | Some q \<Rightarrow> \<not> isEqualNoData output_param q)
                (output_parameters u)
      then False
      else True)"

text \<open>
  \<^verbatim>\<open>asRelation\<close> builds \<^verbatim>\<open>Relation(getName(), getSuffix())\<close>. Modelled from the spec: the
  constructor's default flags are not in the sources; they play no role in \<open>rel_eq\<close>.
\<close>

definition asRelation :: "umrf \<Rightarrow> relation" where
  "asRelation u = \<lparr>rname = name u, rsuffix = suffix u, required = False, received = False\<rparr>"

definition requiredParentsFinished :: "umrf \<Rightarrow> bool" where
  "requiredParentsFinished u = list_all (\<lambda>p. \<not> (required p \<and> \<not> received p)) (parents u)"

definition setParentReceived :: "relation \<Rightarrow> umrf \<Rightarrow> thrown option \<times> umrf" where
  "setParentReceived parent u =
     (case std_find (\<lambda>p. rel_eq p parent) (parents u) of
        Some i \<Rightarrow> (None, u\<lparr>parents := (parents u)[i := (parents u ! i)\<lparr>received := True\<rparr>]\<rparr>)
      | None \<Rightarrow> (Some (CREATE_TEMOTO_ERROR_STACK ''The parent does not exist''), u))"

section \<open>UmrfGraph\<close>

text \<open>
  Modelled from the spec: the class \<^verbatim>\<open>UmrfGraph\<close> (\<^verbatim>\<open>umrf_graph.h\<close>) is not part of the
  sources; only its callers are. The graph holds its name, its nodes keyed by id (here: a
  list of nodes whose ids are distinct), the runtime state of every node, and one graph
  state.
\<close>

datatype node_state = NODE_NOT_STARTED | NODE_ACTIVE | NODE_FINISHED | NODE_ERROR

datatype graph_state =
  GRAPH_UNINITIALIZED | GRAPH_INITIALIZED | GRAPH_ACTIVE | GRAPH_FINISHED | GRAPH_ERROR

record graph_node =
  node_umrf :: umrf
  node_state :: node_state

record umrf_graph =
  graph_name :: string
  graph_nodes :: "graph_node list"
  graph_state :: graph_state

definition node_id :: "graph_node \<Rightarrow> uint" where
  "node_id n = umrf_id (node_umrf n)"

definition relation_full_name :: "relation \<Rightarrow> string" where
  "relation_full_name r = rname r @ ''_'' @ to_string (unat (rsuffix r))"

definition getNode :: "umrf_graph \<Rightarrow> uint \<Rightarrow> graph_node option" where
  "getNode g i = find (\<lambda>n. node_id n = i) (graph_nodes g)"

text \<open>\<open>getUmrfOf\<close>: \<open>None\<close> stands for the exception of a lookup of an absent id.\<close>

definition getUmrfOf :: "umrf_graph \<Rightarrow> uint \<Rightarrow> umrf option" where
  "getUmrfOf g i = map_option node_umrf (getNode g i)"

definition partOfGraph :: "umrf_graph \<Rightarrow> uint \<Rightarrow> bool" where
  "partOfGraph g i = list_ex (\<lambda>n. node_id n = i) (graph_nodes g)"

definition partOfGraphByName :: "umrf_graph \<Rightarrow> string \<Rightarrow> bool" where
  "partOfGraphByName g fn = list_ex (\<lambda>n. full_name (node_umrf n) = fn) (graph_nodes g)"

definition checkState :: "umrf_graph \<Rightarrow> graph_state" where
  "checkState g = graph_state g"

text \<open>\<^verbatim>\<open>roots()\<close>: the ids with no parents.\<close>

definition getRootNodes :: "umrf_graph \<Rightarrow> uint list" where
  "getRootNodes g = map node_id (filter (\<lambda>n. parents (node_umrf n) = []) (graph_nodes g))"

text \<open>
  \<^verbatim>\<open>children_of(id)\<close>: the ids of the nodes whose parent list references the full name of
  the node with this id.
\<close>

definition getChildrenOf :: "umrf_graph \<Rightarrow> uint \<Rightarrow> uint list" where
  "getChildrenOf g i =
     (case getNode g i of
        None \<Rightarrow> []
      | Some n \<Rightarrow>
          map node_id
            (filter (\<lambda>c. list_ex (\<lambda>p. relation_full_name p = full_name (node_umrf n))
                            (parents (node_umrf c)))
               (graph_nodes g)))"

definition modifyNode :: "uint \<Rightarrow> (graph_node \<Rightarrow> graph_node) \<Rightarrow> umrf_graph \<Rightarrow> umrf_graph" where
  "modifyNode i f g = g\<lparr>graph_nodes := map (\<lambda>n. if node_id n = i then f n else n) (graph_nodes g)\<rparr>"

text \<open>Writing through the reference that \<^verbatim>\<open>getUmrfOfNonconst\<close> returns.\<close>

definition setUmrfOf :: "uint \<Rightarrow> umrf \<Rightarrow> umrf_graph \<Rightarrow> umrf_graph" where
  "setUmrfOf i u g = modifyNode i (\<lambda>n. n\<lparr>node_umrf := u\<rparr>) g"

text \<open>
  \<^verbatim>\<open>set_node_active(id)\<close>: the node becomes active and so does the graph.
  \<^verbatim>\<open>set_node_finished(id)\<close>: the node becomes finished; if every node is finished, so is the
  graph. \<^verbatim>\<open>set_node_error(id)\<close>: the node is marked as failed.
\<close>

definition setNodeActive :: "uint \<Rightarrow> umrf_graph \<Rightarrow> umrf_graph" where
  "setNodeActive i g = (modifyNode i (\<lambda>n. n\<lparr>node_state := NODE_ACTIVE\<rparr>) g)\<lparr>graph_state := GRAPH_ACTIVE\<rparr>"

definition setNodeFinished :: "uint \<Rightarrow> umrf_graph \<Rightarrow> umrf_graph" where
  "setNodeFinished i g =
     (let g' = modifyNode i (\<lambda>n. n\<lparr>node_state := NODE_FINISHED\<rparr>) g
      in if list_all (\<lambda>n. node_state n = NODE_FINISHED) (graph_nodes g')
         then g'\<lparr>graph_state := GRAPH_FINISHED\<rparr> else g')"

definition setNodeError :: "uint \<Rightarrow> umrf_graph \<Rightarrow> umrf_graph" where
  "setNodeError i g = modifyNode i (\<lambda>n. n\<lparr>node_state := NODE_ERROR\<rparr>) g"

text \<open>
  Construction rejects duplicate full names, references to nodes that do not exist,
  self-loops and cycles; a rejected graph stays uninitialised. A cycle is found by removing,
  round after round, the nodes that no remaining node precedes.
\<close>

definition precedes :: "umrf \<Rightarrow> umrf \<Rightarrow> bool" where
  "precedes w v =
     (list_ex (\<lambda>r. relation_full_name r = full_name w) (parents v) \<or>
      list_ex (\<lambda>r. relation_full_name r = full_name v) (children w))"

fun acyclic_rounds :: "nat \<Rightarrow> umrf list \<Rightarrow> bool" where
  "acyclic_rounds 0 us = (us = [])"
| "acyclic_rounds (Suc k) us =
     (if us = [] then True
      else (let rest = filter (\<lambda>v. list_ex (\<lambda>w. precedes w v) us) us
            in if length rest = length us then False else acyclic_rounds k rest))"

definition graph_valid :: "umrf list \<Rightarrow> bool" where
  "graph_valid us =
     (distinct (map full_name us) \<and>
      list_all (\<lambda>u. list_all (\<lambda>r. list_ex (\<lambda>w. full_name w = relation_full_name r) us)
                      (parents u @ children u)) us \<and>
      list_all (\<lambda>u. list_all (\<lambda>r. relation_full_name r \<noteq> full_name u)
                      (parents u @ children u)) us \<and>
      acyclic_rounds (length us) us)"

definition UmrfGraph :: "string \<Rightarrow> umrf list \<Rightarrow> umrf_graph" where
  "UmrfGraph graph_name_in us =
     \<lparr>graph_name = graph_name_in,
      graph_nodes = map (\<lambda>u. \<lparr>node_umrf = u, node_state = NODE_NOT_STARTED\<rparr>) us,
      graph_state = (if graph_valid us then GRAPH_INITIALIZED else GRAPH_UNINITIALIZED)\<rparr>"

text \<open>
  The mutations. \<^verbatim>\<open>add_node\<close> inserts the node and updates the relations of the parents and
  children it names; it fails (reports \<open>False\<close>) if the full name is already present.
  \<^verbatim>\<open>remove_node\<close> removes the node, prunes the relations that name it, and returns its id.
  \<^verbatim>\<open>add_child\<close> and \<^verbatim>\<open>remove_child\<close> edit the edges from an existing node to the children
  the descriptor lists.
\<close>

definition addRelationTo ::
  "bool \<Rightarrow> string \<Rightarrow> relation \<Rightarrow> graph_node list \<Rightarrow> graph_node list" where
  "addRelationTo as_parent target r ns =
     map (\<lambda>n. if full_name (node_umrf n) = target
               then (if as_parent
                     then n\<lparr>node_umrf := (node_umrf n)\<lparr>parents := parents (node_umrf n) @ [r]\<rparr>\<rparr>
                     else n\<lparr>node_umrf := (node_umrf n)\<lparr>children := children (node_umrf n) @ [r]\<rparr>\<rparr>)
               else n) ns"

definition removeRelationFrom ::
  "bool \<Rightarrow> string \<Rightarrow> relation \<Rightarrow> graph_node list \<Rightarrow> graph_node list" where
  "removeRelationFrom as_parent target r ns =
     map (\<lambda>n. if full_name (node_umrf n) = target
               then (if as_parent
                     then n\<lparr>node_umrf := (node_umrf n)
                            \<lparr>parents := filter (\<lambda>p. \<not> rel_eq p r) (parents (node_umrf n))\<rparr>\<rparr>
                     else n\<lparr>node_umrf := (node_umrf n)
                            \<lparr>children := filter (\<lambda>c. \<not> rel_eq c r) (children (node_umrf n))\<rparr>\<rparr>)
               else n) ns"

definition addUmrf :: "umrf \<Rightarrow> umrf_graph \<Rightarrow> bool \<times> umrf_graph" where
  "addUmrf u g =
     (if partOfGraphByName g (full_name u) then (False, g)
      else (let ns1 = graph_nodes g @ [\<lparr>node_umrf = u, node_state = NODE_NOT_STARTED\<rparr>];
                ns2 = fold (\<lambda>p. addRelationTo False (relation_full_name p) (asRelation u))
                        (parents u) ns1;
                ns3 = fold (\<lambda>c. addRelationTo True (relation_full_name c) (asRelation u))
                        (children u) ns2
            in (True, g\<lparr>graph_nodes := ns3\<rparr>)))"

definition removeUmrf :: "umrf \<Rightarrow> umrf_graph \<Rightarrow> thrown + (uint \<times> umrf_graph)" where
  "removeUmrf u g =
     (case find (\<lambda>n. full_name (node_umrf n) = full_name u) (graph_nodes g) of
        None \<Rightarrow> Inl (StdException ''out_of_range'')
      | Some n \<Rightarrow>
          Inr (node_id n,
               g\<lparr>graph_nodes :=
                   map (\<lambda>m. m\<lparr>node_umrf := (node_umrf m)
                              \<lparr>parents := filter (\<lambda>p. \<not> rel_eq p (asRelation (node_umrf n)))
                                            (parents (node_umrf m)),
                               children := filter (\<lambda>c. \<not> rel_eq c (asRelation (node_umrf n)))
                                             (children (node_umrf m))\<rparr>\<rparr>)
                     (filter (\<lambda>m. full_name (node_umrf m) \<noteq> full_name u) (graph_nodes g))\<rparr>))"

definition addChild :: "umrf \<Rightarrow> umrf_graph \<Rightarrow> umrf_graph" where
  "addChild u g =
     g\<lparr>graph_nodes :=
         fold (\<lambda>c ns. addRelationTo True (relation_full_name c) (asRelation u)
                        (addRelationTo False (full_name u) c ns))
           (children u) (graph_nodes g)\<rparr>"

definition removeChild :: "umrf \<Rightarrow> umrf_graph \<Rightarrow> umrf_graph" where
  "removeChild u g =
     g\<lparr>graph_nodes :=
         fold (\<lambda>c ns. removeRelationFrom True (relation_full_name c) (asRelation u)
                        (removeRelationFrom False (full_name u) c ns))
           (children u) (graph_nodes g)\<rparr>"

section \<open>ActionHandle\<close>

text \<open>
  Modelled from the spec: the class \<^verbatim>\<open>ActionHandle\<close> is not part of the sources. A handle
  wraps one node; it is initialised when the node is correct; its id is the node's id.
  Loading the implementation and starting the worker depend on the dynamic loader, which is
  outside the engine: what each of the two calls throws for a handle is a parameter
  (\<open>loader\<close>). \<open>clearAction\<close> joins the worker and drops the implementation; the calls made
  on handles are recorded in the order they are made.
\<close>

datatype handle_state =
  HANDLE_UNINITIALIZED | HANDLE_INITIALIZED | HANDLE_RUNNING | HANDLE_FINISHED | HANDLE_ERROR

record action_handle =
  handle_umrf :: umrf
  handle_state :: handle_state
  future_ready :: bool
  future_message :: string

record loader =
  instantiate_throws :: "uint \<Rightarrow> thrown option"
  execute_throws :: "uint \<Rightarrow> thrown option"

datatype handle_call = InstantiateAction uint | ExecuteActionThread uint | ClearAction uint

definition ActionHandle :: "umrf \<Rightarrow> action_handle" where
  "ActionHandle u =
     \<lparr>handle_umrf = u,
      handle_state = (if isUmrfCorrect u then HANDLE_INITIALIZED else HANDLE_UNINITIALIZED),
      future_ready = False, future_message = []\<rparr>"

definition getState :: "action_handle \<Rightarrow> handle_state" where
  "getState ah = handle_state ah"

definition getHandleId :: "action_handle \<Rightarrow> uint" where
  "getHandleId ah = umrf_id (handle_umrf ah)"

definition getEffect :: "action_handle \<Rightarrow> string" where
  "getEffect ah = effect (handle_umrf ah)"

definition futureIsReady :: "action_handle \<Rightarrow> bool" where
  "futureIsReady ah = future_ready ah"

text \<open>\<^verbatim>\<open>get_future_value()\<close> consumes the result and yields its message.\<close>

definition getFutureValue :: "action_handle \<Rightarrow> string \<times> action_handle" where
  "getFutureValue ah = (future_message ah, ah\<lparr>future_ready := False\<rparr>)"

definition instantiateAction :: "loader \<Rightarrow> action_handle \<Rightarrow> thrown option \<times> action_handle" where
  "instantiateAction ld ah =
     (case instantiate_throws ld (getHandleId ah) of
        None \<Rightarrow> (None, ah)
      | Some e \<Rightarrow> (Some e, ah\<lparr>handle_state := HANDLE_ERROR\<rparr>))"

definition executeActionThread :: "loader \<Rightarrow> action_handle \<Rightarrow> thrown option \<times> action_handle" where
  "executeActionThread ld ah =
     (case execute_throws ld (getHandleId ah) of
        None \<Rightarrow> (None, ah\<lparr>handle_state := HANDLE_RUNNING\<rparr>)
      | Some e \<Rightarrow> (Some e, ah))"

definition clearAction :: "action_handle \<Rightarrow> action_handle" where
  "clearAction ah = ah"

section \<open>ActionExecutor (action\_executor.cpp)\<close>

text \<open>
  The two maps of the executor are lists of key-value pairs with distinct keys:
  \<open>map_insert\<close> is \<^verbatim>\<open>std::map::insert\<close> (an existing key keeps its value), \<open>map_erase\<close> is
  \<^verbatim>\<open>erase\<close>, \<open>map_of\<close> is \<^verbatim>\<open>at\<close> (with \<open>None\<close> for its \<^verbatim>\<open>std::out_of_range\<close>) and
  \<open>map_assign\<close> writes through a reference to a stored value. \<open>set_insert\<close> is
  \<^verbatim>\<open>std::set::insert\<close> on a set of ids, kept as an ascending list.
\<close>

definition apostrophe :: string where
  "apostrophe = [CHR 0x27]"

definition map_insert :: "'k \<Rightarrow> 'v \<Rightarrow> ('k \<times> 'v) list \<Rightarrow> ('k \<times> 'v) list" where
  "map_insert k v m = (case map_of m k of None \<Rightarrow> m @ [(k, v)] | Some w \<Rightarrow> m)"

definition map_erase :: "'k \<Rightarrow> ('k \<times> 'v) list \<Rightarrow> ('k \<times> 'v) list" where
  "map_erase k m = filter (\<lambda>kv. fst kv \<noteq> k) m"

definition map_assign :: "'k \<Rightarrow> 'v \<Rightarrow> ('k \<times> 'v) list \<Rightarrow> ('k \<times> 'v) list" where
  "map_assign k v m = map (\<lambda>kv. if fst kv = k then (k, v) else kv) m"

definition set_insert :: "uint \<Rightarrow> uint list \<Rightarrow> uint list" where
  "set_insert x xs = (if x \<in> set xs then xs else insort x xs)"

record executor =
  named_action_handles :: "(uint \<times> action_handle) list"
  named_umrf_graphs :: "(string \<times> umrf_graph) list"
  action_handle_id_count :: uint
  handle_calls :: "handle_call list"

definition ActionExecutor :: executor where
  "ActionExecutor =
     \<lparr>named_action_handles = [], named_umrf_graphs = [], action_handle_id_count = 0,
      handle_calls = []\<rparr>"

definition createId :: "executor \<Rightarrow> uint \<times> executor" where
  "createId ex =
     (action_handle_id_count ex, ex\<lparr>action_handle_id_count := action_handle_id_count ex + 1\<rparr>)"

definition getActionCount :: "executor \<Rightarrow> uint" where
  "getActionCount ex = of_nat (length (named_action_handles ex))"

definition graphExists :: "executor \<Rightarrow> string \<Rightarrow> bool" where
  "graphExists ex graph_name_in = (map_of (named_umrf_graphs ex) graph_name_in \<noteq> None)"

subsection \<open>stopAction\<close>

definition stopAction :: "uint \<Rightarrow> executor \<Rightarrow> executor" where
  "stopAction action_handle_id ex =
     (case map_of (named_action_handles ex) action_handle_id of
        None \<Rightarrow> ex
      | Some ah \<Rightarrow>
          ex\<lparr>named_action_handles := map_erase action_handle_id (named_action_handles ex),
             handle_calls := handle_calls ex @ [ClearAction action_handle_id]\<rparr>)"

subsection \<open>executeById\<close>

text \<open>
  The function works on the handle registry and on the graph it is given by reference; the
  loops thread both, together with the recorded calls.

  First loop: a handle is built for every id. An initialised handle is buffered and its id
  enters \<open>init_action_ids\<close> and \<open>action_rollback_list\<close>; a handle that is not initialised
  throws when \<open>initialized_requrired\<close>, and is skipped otherwise.
\<close>

type_synonym activation = "(uint \<times> action_handle) list \<times> umrf_graph \<times> handle_call list"

fun load_handles ::
  "umrf_graph \<Rightarrow> bool \<Rightarrow> uint list \<Rightarrow> (uint \<times> action_handle) list \<Rightarrow> uint list \<Rightarrow> uint list
     \<Rightarrow> thrown option \<times> (uint \<times> action_handle) list \<times> uint list \<times> uint list" where
  "load_handles ugh initialized_requrired [] tmp init_ids rb = (None, tmp, init_ids, rb)"
| "load_handles ugh initialized_requrired (action_id # ids) tmp init_ids rb =
     (case getUmrfOf ugh action_id of
        None \<Rightarrow> (Some (StdException ''out_of_range''), tmp, init_ids, rb)
      | Some u \<Rightarrow>
          if getState (ActionHandle u) = HANDLE_INITIALIZED
          then load_handles ugh initialized_requrired ids
                 (map_insert (getHandleId (ActionHandle u)) (ActionHandle u) tmp)
                 (set_insert (getHandleId (ActionHandle u)) init_ids)
                 (set_insert (getHandleId (ActionHandle u)) rb)
          else if initialized_requrired
          then (Some (CREATE_TEMOTO_ERROR_STACK
                  ''Cannot execute the actions because all actions were not fully initialized.''),
                tmp, init_ids, rb)
          else load_handles ugh initialized_requrired ids tmp init_ids rb)"

text \<open>
  Second loop: every buffered action is instantiated. A failure marks the node as failed and
  throws an error stack (an error stack is forwarded, a \<^verbatim>\<open>std::exception\<close> is wrapped).
\<close>

fun instantiate_actions ::
  "loader \<Rightarrow> uint list \<Rightarrow> activation \<Rightarrow> uint list \<Rightarrow> thrown option \<times> activation \<times> uint list" where
  "instantiate_actions ld [] act rb = (None, act, rb)"
| "instantiate_actions ld (action_id # ids) (hs, ugh, cs) rb =
     (case map_of hs action_id of
        None \<Rightarrow>
          (Some (CREATE_TEMOTO_ERROR_STACK (''Cannot initialize the actions because: '' @ ''out_of_range'')),
           (hs, setNodeError action_id ugh, cs), rb)
      | Some ah \<Rightarrow>
          (case instantiateAction ld ah of
             (None, ah') \<Rightarrow>
               instantiate_actions ld ids
                 (map_assign action_id ah' hs, ugh, cs @ [InstantiateAction action_id])
                 (set_insert action_id rb)
           | (Some (TemotoErrorStack e), ah') \<Rightarrow>
               (Some (FORWARD_TEMOTO_ERROR_STACK ''executeById'' e),
                (map_assign action_id ah' hs, setNodeError action_id ugh,
                 cs @ [InstantiateAction action_id]), rb)
           | (Some (StdException w), ah') \<Rightarrow>
               (Some (CREATE_TEMOTO_ERROR_STACK (''Cannot initialize the actions because: '' @ w)),
                (map_assign action_id ah' hs, setNodeError action_id ugh,
                 cs @ [InstantiateAction action_id]), rb)))"

text \<open>Third loop: every buffered action is started and its node becomes active.\<close>

fun execute_actions ::
  "loader \<Rightarrow> uint list \<Rightarrow> activation \<Rightarrow> uint list \<Rightarrow> thrown option \<times> activation \<times> uint list" where
  "execute_actions ld [] act rb = (None, act, rb)"
| "execute_actions ld (action_id # ids) (hs, ugh, cs) rb =
     (case map_of hs action_id of
        None \<Rightarrow>
          (Some (CREATE_TEMOTO_ERROR_STACK (''Cannot execute the actions because: '' @ ''out_of_range'')),
           (hs, setNodeError action_id ugh, cs), rb)
      | Some ah \<Rightarrow>
          (case executeActionThread ld ah of
             (None, ah') \<Rightarrow>
               execute_actions ld ids
                 (map_assign action_id ah' hs, setNodeActive action_id ugh,
                  cs @ [ExecuteActionThread action_id])
                 (set_insert action_id rb)
           | (Some (TemotoErrorStack e), ah') \<Rightarrow>
               (Some (FORWARD_TEMOTO_ERROR_STACK ''executeById'' e),
                (map_assign action_id ah' hs, setNodeError action_id ugh,
                 cs @ [ExecuteActionThread action_id]), rb)
           | (Some (StdException w), ah') \<Rightarrow>
               (Some (CREATE_TEMOTO_ERROR_STACK (''Cannot execute the actions because: '' @ w)),
                (map_assign action_id ah' hs, setNodeError action_id ugh,
                 cs @ [ExecuteActionThread action_id]), rb)))"

text \<open>
  The handler of the outer \<^verbatim>\<open>catch(TemotoErrorStack e)\<close>: every id of the rollback list has
  its handle cleared and erased and its node set finished; then the error is forwarded. A
  handle that is not in the registry makes \<^verbatim>\<open>at\<close> throw inside the handler.
\<close>

fun rollback :: "uint list \<Rightarrow> activation \<Rightarrow> thrown option \<times> activation" where
  "rollback [] act = (None, act)"
| "rollback (action_id # ids) (hs, ugh, cs) =
     (case map_of hs action_id of
        None \<Rightarrow> (Some (StdException ''out_of_range''), (hs, ugh, cs))
      | Some ah \<Rightarrow>
          rollback ids
            (map_erase action_id hs, setNodeFinished action_id ugh, cs @ [ClearAction action_id]))"

definition catch_and_rollback ::
  "thrown \<Rightarrow> activation \<Rightarrow> uint list \<Rightarrow> thrown option \<times> activation" where
  "catch_and_rollback t act rb =
     (case t of
        StdException w \<Rightarrow> (Some (StdException w), act)
      | TemotoErrorStack e \<Rightarrow>
          (case rollback rb act of
             (Some t', act') \<Rightarrow> (Some t', act')
           | (None, act') \<Rightarrow> (Some (FORWARD_TEMOTO_ERROR_STACK ''executeById'' e), act')))"

definition executeById ::
  "loader \<Rightarrow> uint list \<Rightarrow> bool \<Rightarrow> activation \<Rightarrow> thrown option \<times> activation" where
  "executeById ld ids initialized_requrired act =
     (case act of (hs, ugh, cs) \<Rightarrow>
        (case load_handles ugh initialized_requrired ids [] [] [] of
           (Some t, tmp, init_action_ids, rb) \<Rightarrow> catch_and_rollback t act rb
         | (None, tmp, init_action_ids, rb) \<Rightarrow>
             (case instantiate_actions ld init_action_ids
                     (fold (\<lambda>kv. map_insert (fst kv) (snd kv)) tmp hs, ugh, cs) rb of
                (Some t, act1, rb1) \<Rightarrow> catch_and_rollback t act1 rb1
              | (None, act1, rb1) \<Rightarrow>
                  (case execute_actions ld init_action_ids act1 rb1 of
                     (Some t, act2, rb2) \<Rightarrow> catch_and_rollback t act2 rb2
                   | (None, act2, rb2) \<Rightarrow> (None, act2)))))"

text \<open>
  The callers hold the graph inside \<open>named_umrf_graphs\<close>: the call reads the registry and the
  graph stored under the name, and writes both back.
\<close>

definition executeById_on ::
  "loader \<Rightarrow> uint list \<Rightarrow> string \<Rightarrow> umrf_graph \<Rightarrow> bool \<Rightarrow> executor \<Rightarrow> thrown option \<times> executor" where
  "executeById_on ld ids key ugh initialized_requrired ex =
     (case executeById ld ids initialized_requrired
             (named_action_handles ex, ugh, handle_calls ex) of
        (r, hs, ugh', cs) \<Rightarrow>
          (r, ex\<lparr>named_action_handles := hs,
                 named_umrf_graphs := map_assign key ugh' (named_umrf_graphs ex),
                 handle_calls := cs\<rparr>))"

subsection \<open>notifyFinished\<close>

text \<open>
  The inner loop: the parent's parameters are copied into every child and the child's
  relation to the parent is marked as received.
\<close>

fun transfer_parameters ::
  "uint \<Rightarrow> ActionParameters \<Rightarrow> uint list \<Rightarrow> umrf_graph \<Rightarrow> thrown option \<times> umrf_graph" where
  "transfer_parameters parent_action_id parent_action_parameters [] ugh = (None, ugh)"
| "transfer_parameters parent_action_id parent_action_parameters (child_id # ids) ugh =
     (case getUmrfOf ugh child_id of
        None \<Rightarrow> (Some (StdException ''out_of_range''), ugh)
      | Some child_umrf \<Rightarrow>
          (case copyInputParameters parent_action_parameters child_umrf of
             (received_all, child1) \<Rightarrow>
               (case getUmrfOf ugh parent_action_id of
                  None \<Rightarrow> (Some (StdException ''out_of_range''), setUmrfOf child_id child1 ugh)
                | Some parent_umrf \<Rightarrow>
                    (case setParentReceived (asRelation parent_umrf) child1 of
                       (Some t, child2) \<Rightarrow> (Some t, setUmrfOf child_id child2 ugh)
                     | (None, child2) \<Rightarrow>
                         transfer_parameters parent_action_id parent_action_parameters ids
                           (setUmrfOf child_id child2 ugh)))))"

text \<open>
  The outer loop over the graphs. Modelled from the spec: the default value of
  \<open>initialized_requrired\<close> is in the missing header; it is \<open>false\<close>.
\<close>

fun notify_graphs ::
  "loader \<Rightarrow> uint \<Rightarrow> ActionParameters \<Rightarrow> string list \<Rightarrow> executor \<Rightarrow> thrown option \<times> executor" where
  "notify_graphs ld parent_action_id parent_action_parameters [] ex = (None, ex)"
| "notify_graphs ld parent_action_id parent_action_parameters (key # keys) ex =
     (case map_of (named_umrf_graphs ex) key of
        None \<Rightarrow> notify_graphs ld parent_action_id parent_action_parameters keys ex
      | Some ugh \<Rightarrow>
          if checkState ugh = GRAPH_ACTIVE
          then (if getChildrenOf ugh parent_action_id = []
                then notify_graphs ld parent_action_id parent_action_parameters keys ex
                else (case transfer_parameters parent_action_id parent_action_parameters
                             (getChildrenOf ugh parent_action_id) ugh of
                        (Some t, ugh1) \<Rightarrow>
                          (Some t, ex\<lparr>named_umrf_graphs :=
                                        map_assign key ugh1 (named_umrf_graphs ex)\<rparr>)
                      | (None, ugh1) \<Rightarrow>
                          (case executeById_on ld (getChildrenOf ugh1 parent_action_id) key ugh1
                                  False ex of
                             (Some t, ex1) \<Rightarrow> (Some t, ex1)
                           | (None, ex1) \<Rightarrow>
                               notify_graphs ld parent_action_id parent_action_parameters
                                 keys ex1)))
          else notify_graphs ld parent_action_id parent_action_parameters keys ex)"

definition notifyFinished ::
  "loader \<Rightarrow> uint \<Rightarrow> ActionParameters \<Rightarrow> executor \<Rightarrow> thrown option \<times> executor" where
  "notifyFinished ld parent_action_id parent_action_parameters ex =
     (case notify_graphs ld parent_action_id parent_action_parameters
             (map fst (named_umrf_graphs ex)) ex of
        (None, ex') \<Rightarrow> (None, ex')
      | (Some (TemotoErrorStack e), ex') \<Rightarrow>
          (Some (FORWARD_TEMOTO_ERROR_STACK ''notifyFinished'' e), ex')
      | (Some (StdException w), ex') \<Rightarrow> (Some (CREATE_TEMOTO_ERROR_STACK w), ex'))"

subsection \<open>cleanupLoop\<close>

text \<open>
  One round of the loop body. For a finished, synchronous handle whose future is ready, the
  result is read, the node is set finished on every graph that contains it, and the action is
  cleared; the iterator then moves on (the \<^verbatim>\<open>erase\<close> is commented out in the source).
\<close>

fun finish_on_graphs :: "uint \<Rightarrow> (string \<times> umrf_graph) list \<Rightarrow> (string \<times> umrf_graph) list" where
  "finish_on_graphs i [] = []"
| "finish_on_graphs i ((key, ugh) # gs) =
     (if partOfGraph ugh i then (key, setNodeFinished i ugh) # finish_on_graphs i gs
      else (key, ugh) # finish_on_graphs i gs)"

fun reap_handles :: "uint list \<Rightarrow> executor \<Rightarrow> executor" where
  "reap_handles [] ex = ex"
| "reap_handles (i # ids) ex =
     (case map_of (named_action_handles ex) i of
        None \<Rightarrow> reap_handles ids ex
      | Some ah \<Rightarrow>
          if getState ah = HANDLE_FINISHED \<and> futureIsReady ah \<and> getEffect ah = ''synchronous''
          then reap_handles ids
                 (ex\<lparr>named_action_handles :=
                       map_assign i (clearAction (snd (getFutureValue ah))) (named_action_handles ex),
                     named_umrf_graphs := finish_on_graphs i (named_umrf_graphs ex),
                     handle_calls := handle_calls ex @ [ClearAction i]\<rparr>)
          else reap_handles ids ex)"

definition cleanupLoop_round :: "executor \<Rightarrow> executor" where
  "cleanupLoop_round ex =
     (if named_action_handles ex = [] then ex
      else (let ex1 = reap_handles (map fst (named_action_handles ex)) ex
            in ex1\<lparr>named_umrf_graphs :=
                     filter (\<lambda>kv. checkState (snd kv) \<noteq> GRAPH_FINISHED) (named_umrf_graphs ex1)\<rparr>))"

subsection \<open>addUmrfGraph\<close>

text \<open>
  When the name exists, the error object is built but not thrown, and the function goes on.
  Every node gets a fresh id, the graph is built, an uninitialised graph is refused, and the
  graph is inserted (\<^verbatim>\<open>std::map::insert\<close> keeps an existing entry).
\<close>

fun assign_ids :: "umrf list \<Rightarrow> executor \<Rightarrow> umrf list \<times> executor" where
  "assign_ids [] ex = ([], ex)"
| "assign_ids (u # us) ex =
     (case createId ex of
        (i, ex1) \<Rightarrow> (case assign_ids us ex1 of (us', ex2) \<Rightarrow> (snd (setId i u) # us', ex2)))"

definition addUmrfGraph :: "string \<Rightarrow> umrf list \<Rightarrow> executor \<Rightarrow> thrown option \<times> executor" where
  "addUmrfGraph graph_name_in umrfs_vec ex =
     (case assign_ids umrfs_vec ex of
        (umrfs_vec', ex1) \<Rightarrow>
          if checkState (UmrfGraph graph_name_in umrfs_vec') = GRAPH_UNINITIALIZED
          then (Some (FORWARD_TEMOTO_ERROR_STACK ''addUmrfGraph''
                        [''Cannot add UMRF graph because it'' @ apostrophe @ ''s uninitialized.'']), ex1)
          else (None, ex1\<lparr>named_umrf_graphs :=
                            map_insert graph_name_in (UmrfGraph graph_name_in umrfs_vec')
                              (named_umrf_graphs ex1)\<rparr>))"

subsection \<open>modifyGraph\<close>

text \<open>
  Modelled from the spec: \<^verbatim>\<open>umrf_graph_diff.h\<close> is not part of the sources. A diff is an
  operation, written as its name, and a node.
\<close>

record UmrfGraphDiff =
  operation :: string
  diff_umrf :: umrf

definition add_umrf :: string where "add_umrf = ''add_umrf''"
definition remove_umrf :: string where "remove_umrf = ''remove_umrf''"
definition add_child :: string where "add_child = ''add_child''"
definition remove_child :: string where "remove_child = ''remove_child''"

text \<open>The first loop: the first diff that fails the check throws.\<close>

fun check_diffs :: "string \<Rightarrow> umrf_graph \<Rightarrow> UmrfGraphDiff list \<Rightarrow> thrown option" where
  "check_diffs graph_name_in ugh [] = None"
| "check_diffs graph_name_in ugh (graph_diff # diffs) =
     (if operation graph_diff = add_umrf
      then (if partOfGraphByName ugh (full_name (diff_umrf graph_diff))
            then Some (CREATE_TEMOTO_ERROR_STACK
                   (''Cannot add UMRF '' @ apostrophe @ full_name (diff_umrf graph_diff) @ apostrophe @
                    '', as it is already part of graph '' @ apostrophe @ graph_name_in @
                    apostrophe))
            else check_diffs graph_name_in ugh diffs)
      else (if partOfGraphByName ugh (full_name (diff_umrf graph_diff))
            then check_diffs graph_name_in ugh diffs
            else Some (CREATE_TEMOTO_ERROR_STACK
                   (''Cannot perform operation '' @ apostrophe @ operation graph_diff @ apostrophe @
                    '' because UMRF graph '' @ apostrophe @ graph_name_in @ apostrophe @
                    '' does not contain node named '' @ apostrophe @
                    full_name (diff_umrf graph_diff) @ apostrophe))))"

text \<open>The second loop: the diffs are applied in order, to the graph stored under the name.\<close>

fun apply_diffs :: "string \<Rightarrow> UmrfGraphDiff list \<Rightarrow> umrf_graph \<Rightarrow> executor
                      \<Rightarrow> thrown option \<times> umrf_graph \<times> executor" where
  "apply_diffs key [] ugh ex = (None, ugh, ex)"
| "apply_diffs key (graph_diff # diffs) ugh ex =
     (if operation graph_diff = add_umrf
      then (case createId ex of
              (i, ex1) \<Rightarrow>
                apply_diffs key diffs (snd (addUmrf (snd (setId i (diff_umrf graph_diff))) ugh)) ex1)
      else if operation graph_diff = remove_umrf
      then (case removeUmrf (diff_umrf graph_diff) ugh of
              Inl t \<Rightarrow> (Some t, ugh, ex)
            | Inr (action_handle_id, ugh1) \<Rightarrow>
                apply_diffs key diffs ugh1 (stopAction action_handle_id ex))
      else if operation graph_diff = add_child
      then apply_diffs key diffs (addChild (diff_umrf graph_diff) ugh) ex
      else if operation graph_diff = remove_child
      then apply_diffs key diffs (removeChild (diff_umrf graph_diff) ugh) ex
      else (Some (CREATE_TEMOTO_ERROR_STACK (''No such operation as '' @ operation graph_diff)),
            ugh, ex))"

definition modifyGraph ::
  "string \<Rightarrow> UmrfGraphDiff list \<Rightarrow> executor \<Rightarrow> thrown option \<times> executor" where
  "modifyGraph graph_name_in graph_diffs ex =
     (case map_of (named_umrf_graphs ex) graph_name_in of
        None \<Rightarrow> (None, ex)
      | Some ugh \<Rightarrow>
          (case check_diffs graph_name_in ugh graph_diffs of
             Some t \<Rightarrow> (Some t, ex)
           | None \<Rightarrow>
               (case apply_diffs graph_name_in graph_diffs ugh ex of
                  (r, ugh', ex') \<Rightarrow>
                    (r, ex'\<lparr>named_umrf_graphs :=
                             map_assign graph_name_in ugh' (named_umrf_graphs ex')\<rparr>))))"

subsection \<open>executeUmrfGraph\<close>

definition executeUmrfGraph :: "loader \<Rightarrow> string \<Rightarrow> executor \<Rightarrow> thrown option \<times> executor" where
  "executeUmrfGraph ld graph_name_in ex =
     (case map_of (named_umrf_graphs ex) graph_name_in of
        None \<Rightarrow>
          (Some (FORWARD_TEMOTO_ERROR_STACK ''executeUmrfGraph''
                   [''Cannot execute UMRF graph '' @ apostrophe @ graph_name_in @ apostrophe @
                    '' because it doesn'' @ apostrophe @ ''t exist.'']), ex)
      | Some ugh \<Rightarrow>
          if checkState ugh = GRAPH_INITIALIZED
          then (case executeById_on ld (getRootNodes ugh) graph_name_in ugh True ex of
                  (None, ex') \<Rightarrow> (None, ex')
                | (Some (TemotoErrorStack e), ex') \<Rightarrow>
                    (Some (FORWARD_TEMOTO_ERROR_STACK ''executeUmrfGraph'' e), ex')
                | (Some (StdException w), ex') \<Rightarrow> (Some (StdException w), ex'))
          else (Some (FORWARD_TEMOTO_ERROR_STACK ''executeUmrfGraph''
                        [''Cannot execute UMRF graph '' @ apostrophe @ graph_name_in @ apostrophe @
                         '' because it'' @ apostrophe @ ''s not in initialized state.'']), ex))"

section \<open>Auxiliary notions for the proofs\<close>

text \<open>
  A parameter bag is a set keyed by name: both bags of a well-formed node have distinct names.
\<close>

definition wf_umrf :: "umrf \<Rightarrow> bool" where
  "wf_umrf u = (wf_parameters (input_parameters u) \<and> wf_parameters (output_parameters u))"

text \<open>What \<open>rel_eq\<close> compares, and a relation list that names no node twice.\<close>

definition rel_key :: "relation \<Rightarrow> string \<times> uint" where
  "rel_key r = (rname r, rsuffix r)"

definition distinct_relations :: "relation list \<Rightarrow> bool" where
  "distinct_relations rs = distinct (map rel_key rs)"

definition params_match ::
  "(parameter \<Rightarrow> parameter \<Rightarrow> bool) \<Rightarrow> parameter list \<Rightarrow> parameter list \<Rightarrow> bool" where
  "params_match eq ps qs =
     (\<forall>p\<in>set ps. \<exists>q. find (\<lambda>q. pname q = pname p) qs = Some q \<and> eq p q)"

definition input_eq :: "bool \<Rightarrow> parameter \<Rightarrow> parameter \<Rightarrow> bool" where
  "input_eq c = (if c then isEqualNoData else isEqualNoDataNoUpdate)"



text \<open>
  The handle registry is a map keyed by the id of the handle: the keys are distinct and every
  handle is stored under its own id. \<open>run_handles\<close> marks the handles of the given ids as
  running. A root is ready when its node is correct and neither loading nor starting its
  action throws.
\<close>

definition handles_wf :: "(uint \<times> action_handle) list \<Rightarrow> bool" where
  "handles_wf hs =
     (distinct (map fst hs) \<and> list_all (\<lambda>kv. getHandleId (snd kv) = fst kv) hs)"

definition run_handles :: "uint list \<Rightarrow> (uint \<times> action_handle) list \<Rightarrow> (uint \<times> action_handle) list" where
  "run_handles ids hs =
     map (\<lambda>kv. if fst kv \<in> set ids then (fst kv, (snd kv)\<lparr>handle_state := HANDLE_RUNNING\<rparr>)
               else kv) hs"

definition root_ready :: "loader \<Rightarrow> umrf_graph \<Rightarrow> uint \<Rightarrow> bool" where
  "root_ready ld ugh i =
     ((case getUmrfOf ugh i of None \<Rightarrow> False | Some u \<Rightarrow> isUmrfCorrect u) \<and>
      instantiate_throws ld i = None \<and> execute_throws ld i = None)"

text \<open>
  \<open>finish_nodes\<close> marks the nodes of the given ids as finished. A handle is built
  (initialised) for an id when the graph holds a correct node under it.
\<close>

definition finish_nodes :: "uint list \<Rightarrow> graph_node list \<Rightarrow> graph_node list" where
  "finish_nodes ids ns =
     map (\<lambda>n. if node_id n \<in> set ids then n\<lparr>node_state := NODE_FINISHED\<rparr> else n) ns"

definition handle_built :: "umrf_graph \<Rightarrow> uint \<Rightarrow> bool" where
  "handle_built ugh i = (case getUmrfOf ugh i of None \<Rightarrow> False | Some u \<Rightarrow> isUmrfCorrect u)"

section \<open>Example values\<close>

text \<open>Concrete nodes used to instantiate the theorems below.\<close>

definition example_relation :: "string \<Rightarrow> bool \<Rightarrow> relation" where
  "example_relation n req = \<lparr>rname = n, rsuffix = 0, required = req, received = False\<rparr>"

definition example_umrf :: "string \<Rightarrow> uint \<Rightarrow> relation list \<Rightarrow> relation list \<Rightarrow> umrf" where
  "example_umrf n i ps cs =
     \<lparr>name = n, description = [], package_name = [], suffix = 0, umrf_notation = [],
      effect = ''synchronous'', library_path = ''lib.so'', parents = ps, children = cs,
      umrf_id = i, full_name = n @ ''_0'', input_parameters = [], output_parameters = []\<rparr>"

definition example_parameter :: "string \<Rightarrow> string \<Rightarrow> bool \<Rightarrow> string \<Rightarrow> parameter" where
  "example_parameter n t upd d =
     \<lparr>pname = n, ptype = t, prequired = True, pupdatable = upd, pallowed = [], pdata = d\<rparr>"

definition example_loader :: loader where
  "example_loader = \<lparr>instantiate_throws = (\<lambda>i. None), execute_throws = (\<lambda>i. None)\<rparr>"

definition example_node :: "umrf \<Rightarrow> node_state \<Rightarrow> graph_node" where
  "example_node u st = \<lparr>node_umrf = u, node_state = st\<rparr>"

definition example_handle :: "umrf \<Rightarrow> handle_state \<Rightarrow> bool \<Rightarrow> action_handle" where
  "example_handle u st rdy =
     \<lparr>handle_umrf = u, handle_state = st, future_ready = rdy, future_message = []\<rparr>"

text \<open>The diamond A -> {B, C} -> D: A has finished, B and C run, D waits for both.\<close>

definition diamond_A :: umrf where
  "diamond_A = example_umrf ''A'' 0 [] [example_relation ''B'' True, example_relation ''C'' True]"

definition diamond_B :: umrf where
  "diamond_B = example_umrf ''B'' 1 [(example_relation ''A'' True)\<lparr>received := True\<rparr>]
                 [example_relation ''D'' True]"

definition diamond_C :: umrf where
  "diamond_C = example_umrf ''C'' 2 [(example_relation ''A'' True)\<lparr>received := True\<rparr>]
                 [example_relation ''D'' True]"

definition diamond_D :: umrf where
  "diamond_D = example_umrf ''D'' 3 [example_relation ''B'' True, example_relation ''C'' True] []"

definition diamond_graph :: umrf_graph where
  "diamond_graph =
     \<lparr>graph_name = ''diamond'',
      graph_nodes = [example_node diamond_A NODE_FINISHED, example_node diamond_B NODE_ACTIVE,
                     example_node diamond_C NODE_ACTIVE, example_node diamond_D NODE_NOT_STARTED],
      graph_state = GRAPH_ACTIVE\<rparr>"

definition diamond_executor :: executor where
  "diamond_executor =
     \<lparr>named_action_handles = [(1, example_handle diamond_B HANDLE_FINISHED True),
                              (2, example_handle diamond_C HANDLE_RUNNING False)],
      named_umrf_graphs = [(''diamond'', diamond_graph)],
      action_handle_id_count = 4, handle_calls = []\<rparr>"

definition single_graph :: umrf_graph where
  "single_graph =
     \<lparr>graph_name = ''single'',
      graph_nodes = [example_node (example_umrf ''A'' 0 [] []) NODE_ACTIVE],
      graph_state = GRAPH_ACTIVE\<rparr>"

definition single_executor :: executor where
  "single_executor =
     \<lparr>named_action_handles = [(0, example_handle (example_umrf ''A'' 0 [] []) HANDLE_FINISHED True)],
      named_umrf_graphs = [(''single'', single_graph)],
      action_handle_id_count = 1, handle_calls = []\<rparr>"

definition failing_loader :: loader where
  "failing_loader =
     \<lparr>instantiate_throws = (\<lambda>i. None),
      execute_throws = (\<lambda>i. if i = 1 then Some (StdException ''no thread'') else None)\<rparr>"

definition pair_graph :: umrf_graph where
  "pair_graph =
     \<lparr>graph_name = ''pair'',
      graph_nodes = [example_node (example_umrf ''A'' 0 [] []) NODE_NOT_STARTED,
                     example_node (example_umrf ''B'' 1 [] []) NODE_NOT_STARTED,
                     example_node (example_umrf ''C'' 2 [(example_relation ''A'' True)] []) NODE_NOT_STARTED],
      graph_state = GRAPH_INITIALIZED\<rparr>"

definition pair_executor :: executor where
  "pair_executor =
     \<lparr>named_action_handles = [], named_umrf_graphs = [(''pair'', pair_graph)],
      action_handle_id_count = 3, handle_calls = []\<rparr>"

definition unbuilt_graph :: umrf_graph where
  "unbuilt_graph =
     \<lparr>graph_name = ''unbuilt'',
      graph_nodes = [example_node (example_umrf ''A'' 0 [] []) NODE_NOT_STARTED,
                     example_node ((example_umrf ''B'' 1 [] [])\<lparr>library_path := []\<rparr>)
                       NODE_NOT_STARTED],
      graph_state = GRAPH_INITIALIZED\<rparr>"

definition unbuilt_executor :: executor where
  "unbuilt_executor =
     \<lparr>named_action_handles = [], named_umrf_graphs = [(''unbuilt'', unbuilt_graph)],
      action_handle_id_count = 2, handle_calls = []\<rparr>"

section \<open>Properties of ActionBase\<close>

lemma std_find_None: "std_find eq xs = None \<longleftrightarrow> \<not> list_ex eq xs"
  by (induction xs) auto

lemma std_find_Some:
  "std_find eq xs = Some i \<Longrightarrow> i < length xs \<and> eq (xs ! i) \<and> (\<forall>j<i. \<not> eq (xs ! j))"
proof (induction xs arbitrary: i)
  case Nil
  then show ?case by simp
next
  case (Cons y ys)
  show ?case
  proof (cases "eq y")
    case True
    with Cons.prems show ?thesis by simp
  next
    case False
    with Cons.prems obtain k where k: "std_find eq ys = Some k" "i = Suc k"
      by auto
    from Cons.IH [OF k(1)] False k(2) show ?thesis
      by (auto simp: less_Suc_eq_0_disj)
  qed
qed

lemma std_find_update_same:
  "(\<And>x. eq (f x) = eq x) \<Longrightarrow> std_find eq (xs[i := f (xs ! i)]) = std_find eq xs"
proof (induction xs arbitrary: i)
  case Nil
  then show ?case by simp
next
  case (Cons y ys)
  then show ?case by (cases i) simp_all
qed

text \<open>
  Claim C9. An object on which \<^verbatim>\<open>setUmrf\<close> was never called (a fresh object has
  \<open>umrf_set = False\<close>, only \<open>setUmrf\<close> sets it) makes \<open>executeActionWrapped\<close> raise the
  "uninitialised" error whatever the body is, leaving the object as it was: the body is not
  invoked. Once the flag is set, the wrapper's effect on the object is the body's effect, it
  raises exactly when the body lets something escape, and whatever it raises is an error stack.
\<close>

theorem executeActionWrapped_guard:
  "umrf_set (setUmrf n a) \<and> \<not> umrf_set (ActionBase d) \<and>
   (\<not> umrf_set a \<longrightarrow>
      executeActionWrapped executeAction a =
        (Some (TemotoErrorStack
           [''Failed to execute the action because the UMRF is uninitialised'']), a)) \<and>
   (umrf_set a \<longrightarrow>
      snd (executeActionWrapped executeAction a) = snd (executeAction a) \<and>
      (fst (executeActionWrapped executeAction a) = None) = (fst (executeAction a) = None) \<and>
      (\<forall>e. fst (executeActionWrapped executeAction a) = Some e \<longrightarrow>
           (\<exists>frames. e = TemotoErrorStack frames)))"
  by (auto simp: executeActionWrapped_def isInitialized_def setUmrf_def ActionBase_def
        CREATE_TEMOTO_ERROR_STACK_def FORWARD_TEMOTO_ERROR_STACK_def
      split: prod.splits option.splits escaped.splits thrown.splits)

theorem executeActionWrapped_guard_witness:
  "executeActionWrapped (\<lambda>a. (Some OtherException, a\<lparr>STOP_REQUESTED := True\<rparr>))
       (ActionBase (0::nat)) =
     (Some (TemotoErrorStack
        [''Failed to execute the action because the UMRF is uninitialised'']), ActionBase 0) \<and>
   snd (executeActionWrapped (\<lambda>a. (Some OtherException, a\<lparr>STOP_REQUESTED := True\<rparr>))
       (setUmrf 7 (ActionBase (0::nat)))) =
     \<lparr>STOP_REQUESTED = True, umrf_node = 7, umrf_set = True\<rparr> \<and>
   fst (executeActionWrapped (\<lambda>a. (Some OtherException, a\<lparr>STOP_REQUESTED := True\<rparr>))
       (setUmrf 7 (ActionBase (0::nat)))) =
     Some (TemotoErrorStack [''Caught an unhandled error.''])"
  using executeActionWrapped_guard
          [of 7 "ActionBase (0::nat)" 0 "\<lambda>a. (Some OtherException, a\<lparr>STOP_REQUESTED := True\<rparr>)"]
        executeActionWrapped_guard
          [of 7 "setUmrf 7 (ActionBase (0::nat))" 0
              "\<lambda>a. (Some OtherException, a\<lparr>STOP_REQUESTED := True\<rparr>)"]
  by (simp add: executeActionWrapped_def isInitialized_def setUmrf_def ActionBase_def
        CREATE_TEMOTO_ERROR_STACK_def)

section \<open>Properties of Umrf\<close>

text \<open>
  Claim C10. When \<open>r\<close> occurs in the parents list, \<open>setParentReceived r\<close> returns normally and
  sets \<open>received\<close> on the first parent relation equal to \<open>r\<close>, and nothing else; a second call
  with the same relation changes nothing. When \<open>r\<close> does not occur, it raises an error and
  the node is as before.
\<close>

theorem setParentReceived_first_match:
  "(list_ex (\<lambda>p. rel_eq p r) (parents u) \<longrightarrow>
      (\<exists>i<length (parents u).
          rel_eq (parents u ! i) r \<and> (\<forall>j<i. \<not> rel_eq (parents u ! j) r) \<and>
          setParentReceived r u =
            (None, u\<lparr>parents := (parents u)[i := (parents u ! i)\<lparr>received := True\<rparr>]\<rparr>) \<and>
          setParentReceived r (snd (setParentReceived r u)) = setParentReceived r u)) \<and>
   (\<not> list_ex (\<lambda>p. rel_eq p r) (parents u) \<longrightarrow>
      setParentReceived r u = (Some (TemotoErrorStack [''The parent does not exist'']), u))"
proof (intro conjI impI)
  assume ex: "list_ex (\<lambda>p. rel_eq p r) (parents u)"
  then obtain i where i: "std_find (\<lambda>p. rel_eq p r) (parents u) = Some i"
    using std_find_None [of "\<lambda>p. rel_eq p r" "parents u"] by (cases "std_find (\<lambda>p. rel_eq p r) (parents u)") auto
  note props = std_find_Some [OF i]
  let ?u' = "u\<lparr>parents := (parents u)[i := (parents u ! i)\<lparr>received := True\<rparr>]\<rparr>"
  have first: "setParentReceived r u = (None, ?u')"
    using i by (simp add: setParentReceived_def)
  have same: "std_find (\<lambda>p. rel_eq p r) (parents ?u') = Some i"
    using std_find_update_same [of "\<lambda>p. rel_eq p r" "\<lambda>p. p\<lparr>received := True\<rparr>" "parents u" i] i
    by (simp add: rel_eq_def)
  have again: "setParentReceived r ?u' = (None, ?u')"
    using same props by (simp add: setParentReceived_def)
  show "\<exists>i<length (parents u).
          rel_eq (parents u ! i) r \<and> (\<forall>j<i. \<not> rel_eq (parents u ! j) r) \<and>
          setParentReceived r u =
            (None, u\<lparr>parents := (parents u)[i := (parents u ! i)\<lparr>received := True\<rparr>]\<rparr>) \<and>
          setParentReceived r (snd (setParentReceived r u)) = setParentReceived r u"
    using props first again by (intro exI [of _ i]) simp
next
  assume "\<not> list_ex (\<lambda>p. rel_eq p r) (parents u)"
  then have "std_find (\<lambda>p. rel_eq p r) (parents u) = None"
    by (simp add: std_find_None)
  then show "setParentReceived r u = (Some (TemotoErrorStack [''The parent does not exist'']), u)"
    by (simp add: setParentReceived_def CREATE_TEMOTO_ERROR_STACK_def)
qed


theorem setParentReceived_first_match_witness:
  "setParentReceived (asRelation (example_umrf ''B'' 1 [] []))
       (example_umrf ''D'' 3 [example_relation ''C'' True, example_relation ''B'' True] []) =
     (None, example_umrf ''D'' 3
        [example_relation ''C'' True, (example_relation ''B'' True)\<lparr>received := True\<rparr>] []) \<and>
   setParentReceived (asRelation (example_umrf ''A'' 0 [] []))
       (example_umrf ''D'' 3 [example_relation ''C'' True, example_relation ''B'' True] []) =
     (Some (TemotoErrorStack [''The parent does not exist'']),
      example_umrf ''D'' 3 [example_relation ''C'' True, example_relation ''B'' True] [])"
  using setParentReceived_first_match
          [of "asRelation (example_umrf ''B'' 1 [] [])"
              "example_umrf ''D'' 3 [example_relation ''C'' True, example_relation ''B'' True] []"]
        setParentReceived_first_match
          [of "asRelation (example_umrf ''A'' 0 [] [])"
              "example_umrf ''D'' 3 [example_relation ''C'' True, example_relation ''B'' True] []"]
  by (simp add: setParentReceived_def asRelation_def example_umrf_def example_relation_def
        rel_eq_def CREATE_TEMOTO_ERROR_STACK_def)

section \<open>Lemmas about parameter bags\<close>

lemma find_name_Some:
  "find (\<lambda>q. pname q = n) qs = Some q \<Longrightarrow> q \<in> set qs \<and> pname q = n"
  by (induction qs) (auto split: if_splits)


lemma find_name_distinct:
  "distinct (map pname qs) \<Longrightarrow> q \<in> set qs \<Longrightarrow> find (\<lambda>x. pname x = pname q) qs = Some q"
  by (induction qs) (auto simp: image_iff)

section \<open>Properties of isEqual\<close>

lemma isEqual_char:
  "isEqual u v c \<longleftrightarrow>
     name u = name v \<and> suffix u = suffix v \<and> umrf_notation u = umrf_notation v \<and>
     effect u = effect v \<and> length (children u) = length (children v) \<and>
     length (parents u) = length (parents v) \<and>
     rel_key ` set (parents v) \<subseteq> rel_key ` set (parents u) \<and>
     rel_key ` set (children v) \<subseteq> rel_key ` set (children u) \<and>
     length (input_parameters u) = length (input_parameters v) \<and>
     length (output_parameters u) = length (output_parameters v) \<and>
     params_match (input_eq c) (input_parameters u) (input_parameters v) \<and>
     params_match isEqualNoData (output_parameters u) (output_parameters v)"
proof -
  have rel: "\<And>rs ss. list_ex (\<lambda>x. std_find (\<lambda>p. rel_eq p x) rs = None) ss
                \<longleftrightarrow> \<not> rel_key ` set ss \<subseteq> rel_key ` set rs"
    by (auto simp: std_find_None list_ex_iff rel_eq_def rel_key_def image_iff subset_iff)
       (metis)+
  have par: "\<And>ps qs. list_ex (\<lambda>p. case getParameter qs (pname p) of None \<Rightarrow> True
                 | Some q \<Rightarrow> if c then \<not> isEqualNoData p q else \<not> isEqualNoDataNoUpdate p q) ps
                \<longleftrightarrow> \<not> params_match (input_eq c) ps qs"
    by (auto simp: list_ex_iff params_match_def getParameter_def input_eq_def split: option.splits)
  have out: "\<And>ps qs. list_ex (\<lambda>p. case getParameter qs (pname p) of None \<Rightarrow> True
                 | Some q \<Rightarrow> \<not> isEqualNoData p q) ps
                \<longleftrightarrow> \<not> params_match isEqualNoData ps qs"
    by (auto simp: list_ex_iff params_match_def getParameter_def split: option.splits)
  show ?thesis
    unfolding isEqual_def rel par out getParameterCount_def by auto
qed


lemma input_eq_refl: "input_eq c p p"
  by (simp add: input_eq_def isEqualNoData_def isEqualNoDataNoUpdate_def)

lemma input_eq_sym: "input_eq c p q \<Longrightarrow> input_eq c q p"
  by (auto simp: input_eq_def isEqualNoData_def isEqualNoDataNoUpdate_def split: if_splits)

lemma input_eq_trans: "input_eq c p q \<Longrightarrow> input_eq c q r \<Longrightarrow> input_eq c p r"
  by (auto simp: input_eq_def isEqualNoData_def isEqualNoDataNoUpdate_def split: if_splits)

lemma input_eq_True: "isEqualNoData = input_eq True"
  by (simp add: input_eq_def)

lemma params_match_refl: "wf_parameters ps \<Longrightarrow> params_match (input_eq c) ps ps"
  by (auto simp: params_match_def wf_parameters_def find_name_distinct input_eq_refl)

lemma params_match_trans:
  assumes "params_match (input_eq c) ps qs" and "params_match (input_eq c) qs rs"
  shows "params_match (input_eq c) ps rs"
  unfolding params_match_def
proof
  fix p assume "p \<in> set ps"
  with assms(1) obtain q where q: "find (\<lambda>q. pname q = pname p) qs = Some q" "input_eq c p q"
    by (auto simp: params_match_def)
  from find_name_Some [OF q(1)] have qin: "q \<in> set qs" and qn: "pname q = pname p"
    by simp_all
  from assms(2) qin obtain r where r: "find (\<lambda>x. pname x = pname q) rs = Some r" "input_eq c q r"
    by (auto simp: params_match_def)
  from r qn q(2) show "\<exists>r. find (\<lambda>x. pname x = pname p) rs = Some r \<and> input_eq c p r"
    by (auto intro: input_eq_trans)
qed

lemma params_match_names: "params_match eq ps qs \<Longrightarrow> pname ` set ps \<subseteq> pname ` set qs"
proof
  fix n assume "n \<in> pname ` set ps"
  then obtain p where p: "p \<in> set ps" "n = pname p" by auto
  assume "params_match eq ps qs"
  with p(1) obtain q where "find (\<lambda>q. pname q = pname p) qs = Some q"
    by (auto simp: params_match_def)
  from find_name_Some [OF this] p(2) show "n \<in> pname ` set qs" by (metis imageI)
qed

lemma params_match_sym:
  assumes m: "params_match (input_eq c) ps qs"
    and len: "length ps = length qs"
    and dp: "wf_parameters ps" and dq: "wf_parameters qs"
  shows "params_match (input_eq c) qs ps"
proof -
  have sub: "pname ` set ps \<subseteq> pname ` set qs"
    using m by (rule params_match_names)
  have "card (pname ` set ps) = length ps"
    using dp distinct_card [of "map pname ps"] by (simp add: wf_parameters_def)
  moreover have "card (pname ` set qs) = length qs"
    using dq distinct_card [of "map pname qs"] by (simp add: wf_parameters_def)
  ultimately have "pname ` set ps = pname ` set qs"
    using sub len by (simp add: card_subset_eq)
  then have sup: "pname ` set qs \<subseteq> pname ` set ps" by simp
  show ?thesis
    unfolding params_match_def
  proof
    fix q assume qin: "q \<in> set qs"
    with sup obtain p where p: "p \<in> set ps" "pname p = pname q" by (auto simp: image_iff)
    from m p(1) obtain q' where q': "find (\<lambda>x. pname x = pname p) qs = Some q'" "input_eq c p q'"
      by (auto simp: params_match_def)
    have "find (\<lambda>x. pname x = pname q) qs = Some q"
      using dq qin by (simp add: wf_parameters_def find_name_distinct)
    with q'(1) p(2) have "q' = q" by simp
    moreover have "find (\<lambda>x. pname x = pname p) ps = Some p"
      using dp p(1) by (simp add: wf_parameters_def find_name_distinct)
    ultimately show "\<exists>p. find (\<lambda>x. pname x = pname q) ps = Some p \<and> input_eq c q p"
      using q'(2) p(2) by (auto intro: input_eq_sym)
  qed
qed

lemma rel_keys_sym:
  assumes sub: "rel_key ` set ss \<subseteq> rel_key ` set rs"
    and len: "length rs = length ss"
    and d: "distinct_relations ss"
  shows "rel_key ` set rs \<subseteq> rel_key ` set ss"
proof -
  have "card (rel_key ` set ss) = length ss"
    using d distinct_card [of "map rel_key ss"] by (simp add: distinct_relations_def)
  moreover have "card (rel_key ` set rs) \<le> length rs"
    using card_length [of "map rel_key rs"] by simp
  ultimately have "card (rel_key ` set rs) \<le> card (rel_key ` set ss)"
    using len by simp
  with sub have "rel_key ` set ss = rel_key ` set rs"
    by (simp add: card_seteq)
  then show ?thesis by simp
qed

text \<open>
  Claim C8 (as amended). For both values of \<open>check_updatable\<close>, \<open>isEqual\<close> is reflexive and
  transitive, and it is symmetric when the parents and children lists of its argument name
  no node twice. (The parameter bags are sets keyed by name: \<open>wf_umrf\<close>.)
\<close>

theorem isEqual_equivalence:
  "(wf_umrf a \<longrightarrow> isEqual a a c) \<and>
   (wf_umrf a \<and> wf_umrf b \<and> distinct_relations (parents b) \<and> distinct_relations (children b) \<and>
      isEqual a b c \<longrightarrow> isEqual b a c) \<and>
   (isEqual a b c \<and> isEqual b d c \<longrightarrow> isEqual a d c)"
proof (intro conjI impI)
  assume "wf_umrf a"
  then show "isEqual a a c"
    using params_match_refl [of "input_parameters a" c]
          params_match_refl [of "output_parameters a" True]
    by (simp add: isEqual_char wf_umrf_def input_eq_True)
next
  assume h: "wf_umrf a \<and> wf_umrf b \<and> distinct_relations (parents b) \<and>
             distinct_relations (children b) \<and> isEqual a b c"
  then have e: "isEqual a b c" by simp
  have p: "rel_key ` set (parents a) \<subseteq> rel_key ` set (parents b)"
    using rel_keys_sym [of "parents b" "parents a"] h e by (simp add: isEqual_char)
  have ch: "rel_key ` set (children a) \<subseteq> rel_key ` set (children b)"
    using rel_keys_sym [of "children b" "children a"] h e by (simp add: isEqual_char)
  have i: "params_match (input_eq c) (input_parameters b) (input_parameters a)"
    using params_match_sym [of c "input_parameters a" "input_parameters b"] h e
    by (simp add: isEqual_char wf_umrf_def)
  have out: "params_match isEqualNoData (output_parameters b) (output_parameters a)"
    using params_match_sym [of True "output_parameters a" "output_parameters b"] h e
    by (simp add: isEqual_char wf_umrf_def input_eq_True)
  show "isEqual b a c"
    using e p ch i out by (simp add: isEqual_char)
next
  assume h: "isEqual a b c \<and> isEqual b d c"
  have i: "params_match (input_eq c) (input_parameters a) (input_parameters d)"
    using params_match_trans [of c "input_parameters a" "input_parameters b" "input_parameters d"] h
    by (simp add: isEqual_char)
  have out: "params_match isEqualNoData (output_parameters a) (output_parameters d)"
    using params_match_trans [of True "output_parameters a" "output_parameters b" "output_parameters d"] h
    by (simp add: isEqual_char input_eq_True)
  have p: "rel_key ` set (parents d) \<subseteq> rel_key ` set (parents a)"
    using h by (simp add: isEqual_char) blast
  have ch: "rel_key ` set (children d) \<subseteq> rel_key ` set (children a)"
    using h by (simp add: isEqual_char) blast
  show "isEqual a d c"
    using h i out p ch by (simp add: isEqual_char)
qed

text \<open>
  Claim C8 as stated fails: the connections are compared by their number and by looking up
  each connection of the argument in the node's own list, so a list that names a node twice
  is equal to one that does not, but not the other way round.
\<close>

theorem isEqual_symmetric_counterexample:
  "isEqual (example_umrf ''D'' 3 [example_relation ''A'' True, example_relation ''B'' True] [])
           (example_umrf ''D'' 3 [example_relation ''A'' True, example_relation ''A'' True] []) True \<and>
   \<not> isEqual (example_umrf ''D'' 3 [example_relation ''A'' True, example_relation ''A'' True] [])
             (example_umrf ''D'' 3 [example_relation ''A'' True, example_relation ''B'' True] []) True \<and>
   isEqual (example_umrf ''D'' 3 [example_relation ''A'' True, example_relation ''B'' True] [])
           (example_umrf ''D'' 3 [example_relation ''A'' True, example_relation ''A'' True] []) False \<and>
   \<not> isEqual (example_umrf ''D'' 3 [example_relation ''A'' True, example_relation ''A'' True] [])
             (example_umrf ''D'' 3 [example_relation ''A'' True, example_relation ''B'' True] []) False"
  by (simp add: isEqual_def example_umrf_def example_relation_def rel_eq_def getParameterCount_def)


theorem isEqual_equivalence_witness:
  "wf_umrf ((example_umrf ''D'' 3 [example_relation ''A'' True, example_relation ''B'' True] [])
              \<lparr>input_parameters := [example_parameter ''x'' ''number'' True ''1'']\<rparr>) \<and>
   wf_umrf ((example_umrf ''D'' 3 [example_relation ''B'' False, example_relation ''A'' True] [])
              \<lparr>input_parameters := [example_parameter ''x'' ''number'' False ''2'']\<rparr>) \<and>
   distinct_relations [example_relation ''B'' False, example_relation ''A'' True] \<and>
   isEqual ((example_umrf ''D'' 3 [example_relation ''A'' True, example_relation ''B'' True] [])
              \<lparr>input_parameters := [example_parameter ''x'' ''number'' True ''1'']\<rparr>)
           ((example_umrf ''D'' 3 [example_relation ''B'' False, example_relation ''A'' True] [])
              \<lparr>input_parameters := [example_parameter ''x'' ''number'' False ''2'']\<rparr>) False \<and>
   isEqual ((example_umrf ''D'' 3 [example_relation ''B'' False, example_relation ''A'' True] [])
              \<lparr>input_parameters := [example_parameter ''x'' ''number'' False ''2'']\<rparr>)
           ((example_umrf ''D'' 3 [example_relation ''A'' True, example_relation ''B'' True] [])
              \<lparr>input_parameters := [example_parameter ''x'' ''number'' True ''1'']\<rparr>) False \<and>
   isEqual ((example_umrf ''D'' 3 [example_relation ''A'' True, example_relation ''B'' True] [])
              \<lparr>input_parameters := [example_parameter ''x'' ''number'' True ''1'']\<rparr>)
           ((example_umrf ''D'' 3 [example_relation ''A'' True, example_relation ''B'' True] [])
              \<lparr>input_parameters := [example_parameter ''x'' ''number'' True ''1'']\<rparr>) False"
  using isEqual_equivalence
          [of "(example_umrf ''D'' 3 [example_relation ''A'' True, example_relation ''B'' True] [])
                 \<lparr>input_parameters := [example_parameter ''x'' ''number'' True ''1'']\<rparr>"
              False
              "(example_umrf ''D'' 3 [example_relation ''B'' False, example_relation ''A'' True] [])
                 \<lparr>input_parameters := [example_parameter ''x'' ''number'' False ''2'']\<rparr>"
              "(example_umrf ''D'' 3 [example_relation ''A'' True, example_relation ''B'' True] [])
                 \<lparr>input_parameters := [example_parameter ''x'' ''number'' True ''1'']\<rparr>"]
  by (simp add: isEqual_def wf_umrf_def wf_parameters_def distinct_relations_def rel_key_def
        example_umrf_def example_relation_def example_parameter_def rel_eq_def
        getParameterCount_def getParameter_def isEqualNoDataNoUpdate_def)

section \<open>Properties of updateInputParams\<close>









section \<open>Properties of executeById\<close>

lemma set_insert_set: "set (set_insert x xs) = insert x (set xs)"
  by (auto simp: set_insert_def set_insort_key)

lemma set_insert_distinct: "distinct xs \<Longrightarrow> distinct (set_insert x xs)"
  by (simp add: set_insert_def distinct_insort)

lemma set_insert_member: "x \<in> set xs \<Longrightarrow> set_insert x xs = xs"
  by (simp add: set_insert_def)

lemma map_insert_keys: "fst ` set (map_insert k v m) = insert k (fst ` set m)"
  by (auto simp: map_insert_def map_of_eq_None_iff split: option.splits dest: map_of_SomeD)
     (metis fst_conv image_eqI map_of_SomeD)

lemma map_assign_keys: "fst ` set (map_assign k v m) = fst ` set m"
  by (induction m) (auto simp: map_assign_def)

lemma map_erase_keys: "fst ` set (map_erase k m) = fst ` set m - {k}"
  by (induction m) (auto simp: map_erase_def)

lemma bulk_insert_keys:
  "fst ` set (fold (\<lambda>kv. map_insert (fst kv) (snd kv)) tmp hs) = fst ` set hs \<union> fst ` set tmp"
  by (induction tmp arbitrary: hs) (auto simp: map_insert_keys)

lemma load_handles_inv:
  "load_handles ugh req ids tmp init rb = (r, tmp', init', rb') \<Longrightarrow>
   init = rb \<Longrightarrow> distinct init \<Longrightarrow> set init \<subseteq> fst ` set tmp \<Longrightarrow>
   init' = rb' \<and> distinct init' \<and> set init' \<subseteq> fst ` set tmp'"
proof (induction ids arbitrary: tmp init rb)
  case Nil
  then show ?case by auto
next
  case (Cons a ids)
  show ?case
  proof (cases "getUmrfOf ugh a")
    case None
    with Cons.prems show ?thesis by auto
  next
    case (Some u)
    let ?h = "ActionHandle u"
    show ?thesis
    proof (cases "getState ?h = HANDLE_INITIALIZED")
      case True
      with Some Cons.prems(1)
      have run: "load_handles ugh req ids (map_insert (getHandleId ?h) ?h tmp)
                   (set_insert (getHandleId ?h) init) (set_insert (getHandleId ?h) rb)
                 = (r, tmp', init', rb')"
        by simp
      show ?thesis
        using Cons.prems(2-4)
        by (intro Cons.IH [OF run])
           (auto simp: set_insert_distinct set_insert_set map_insert_keys)
    next
      case False
      show ?thesis
      proof (cases req)
        case True
        with False Some Cons.prems show ?thesis by auto
      next
        case no: False
        with False Some Cons.prems(1)
        have "load_handles ugh req ids tmp init rb = (r, tmp', init', rb')" by simp
        from Cons.IH [OF this Cons.prems(2-4)] show ?thesis .
      qed
    qed
  qed
qed

lemma instantiate_actions_inv:
  "instantiate_actions ld ids (hs, ugh, cs) rb = (r, (hs', ugh', cs'), rb') \<Longrightarrow>
   set ids \<subseteq> set rb \<Longrightarrow>
   rb' = rb \<and> fst ` set hs' = fst ` set hs \<and> (r = None \<or> (\<exists>e. r = Some (TemotoErrorStack e)))"
proof (induction ids arbitrary: hs ugh cs)
  case Nil
  then show ?case by simp
next
  case (Cons a ids)
  from Cons.prems(2) have mem: "set_insert a rb = rb" and sub: "set ids \<subseteq> set rb"
    by (simp_all add: set_insert_member)
  show ?case
  proof (cases "map_of hs a")
    case None
    with Cons.prems(1) show ?thesis by (auto simp: CREATE_TEMOTO_ERROR_STACK_def)
  next
    case (Some ah)
    obtain t ah' where ia: "instantiateAction ld ah = (t, ah')" by (cases "instantiateAction ld ah")
    show ?thesis
    proof (cases t)
      case None
      with Some ia Cons.prems(1) mem
      have "instantiate_actions ld ids (map_assign a ah' hs, ugh, cs @ [InstantiateAction a]) rb
            = (r, (hs', ugh', cs'), rb')"
        by simp
      from Cons.IH [OF this sub] show ?thesis by (simp add: map_assign_keys)
    next
      case (Some x)
      with \<open>map_of hs a = Some ah\<close> ia Cons.prems(1) show ?thesis
        by (cases x)
           (clarsimp simp: CREATE_TEMOTO_ERROR_STACK_def FORWARD_TEMOTO_ERROR_STACK_def
              map_assign_keys)+
    qed
  qed
qed

lemma execute_actions_inv:
  "execute_actions ld ids (hs, ugh, cs) rb = (r, (hs', ugh', cs'), rb') \<Longrightarrow>
   set ids \<subseteq> set rb \<Longrightarrow>
   rb' = rb \<and> fst ` set hs' = fst ` set hs \<and> (r = None \<or> (\<exists>e. r = Some (TemotoErrorStack e)))"
proof (induction ids arbitrary: hs ugh cs)
  case Nil
  then show ?case by simp
next
  case (Cons a ids)
  from Cons.prems(2) have mem: "set_insert a rb = rb" and sub: "set ids \<subseteq> set rb"
    by (simp_all add: set_insert_member)
  show ?case
  proof (cases "map_of hs a")
    case None
    with Cons.prems(1) show ?thesis by (auto simp: CREATE_TEMOTO_ERROR_STACK_def)
  next
    case (Some ah)
    obtain t ah' where ia: "executeActionThread ld ah = (t, ah')"
      by (cases "executeActionThread ld ah")
    show ?thesis
    proof (cases t)
      case None
      with Some ia Cons.prems(1) mem
      have "execute_actions ld ids
              (map_assign a ah' hs, setNodeActive a ugh, cs @ [ExecuteActionThread a]) rb
            = (r, (hs', ugh', cs'), rb')"
        by simp
      from Cons.IH [OF this sub] show ?thesis by (simp add: map_assign_keys)
    next
      case (Some x)
      with \<open>map_of hs a = Some ah\<close> ia Cons.prems(1) show ?thesis
        by (cases x)
           (clarsimp simp: CREATE_TEMOTO_ERROR_STACK_def FORWARD_TEMOTO_ERROR_STACK_def
              map_assign_keys)+
    qed
  qed
qed

lemma rollback_complete:
  "distinct rb \<Longrightarrow> set rb \<subseteq> fst ` set hs \<Longrightarrow>
   rollback rb (hs, ugh, cs) =
     (None, (filter (\<lambda>kv. fst kv \<notin> set rb) hs, fold setNodeFinished rb ugh,
             cs @ map ClearAction rb))"
proof (induction rb arbitrary: hs ugh cs)
  case Nil
  then show ?case by simp
next
  case (Cons a rb)
  from Cons.prems(2) obtain ah where ah: "map_of hs a = Some ah"
    by (cases "map_of hs a") (auto simp: map_of_eq_None_iff)
  have sub: "set rb \<subseteq> fst ` set (map_erase a hs)"
    using Cons.prems by (auto simp: map_erase_keys)
  have flt: "filter (\<lambda>kv. fst kv \<notin> set rb) (map_erase a hs) = filter (\<lambda>kv. fst kv \<notin> set (a # rb)) hs"
    by (auto simp: map_erase_def intro: filter_cong)
  from Cons.prems(1) have d: "distinct rb" by simp
  show ?case
    using ah Cons.IH [OF d sub, of "setNodeFinished a ugh" "cs @ [ClearAction a]"] flt
    by simp
qed


lemmas graph_defs = getChildrenOf_def getNode_def node_id_def relation_full_name_def getUmrfOf_def
  checkState_def setUmrfOf_def modifyNode_def setNodeActive_def setNodeFinished_def setNodeError_def
  partOfGraph_def partOfGraphByName_def getRootNodes_def

lemmas handle_defs = ActionHandle_def getState_def getHandleId_def getEffect_def futureIsReady_def
  getFutureValue_def instantiateAction_def executeActionThread_def clearAction_def isUmrfCorrect_def

lemmas exec_defs = executeById_def executeById_on_def catch_and_rollback_def map_insert_def
  map_erase_def map_assign_def set_insert_def

lemmas example_defs = example_loader_def example_node_def example_handle_def diamond_A_def
  diamond_B_def diamond_C_def diamond_D_def diamond_graph_def diamond_executor_def
  example_umrf_def example_relation_def single_graph_def single_executor_def

text \<open>
  Claim C4. Let the first loop of \<open>executeById\<close> succeed, and let the instantiation loop or
  the execution loop throw \<open>t\<close>, leaving the registry \<open>hs'\<close>, the graph \<open>ugh'\<close>, the recorded
  calls \<open>cs'\<close> and the rollback list \<open>rb'\<close>. Then \<open>rb'\<close> holds the ids of all buffered
  handles, \<open>clearAction\<close> is called for every id of \<open>rb'\<close>, every such handle is erased from the
  registry, \<open>setNodeFinished\<close> is applied to the graph for every such id, and \<open>executeById\<close>
  throws the error \<open>t\<close>, forwarded.
\<close>

theorem executeById_rollback:
  assumes load: "load_handles ugh req ids [] [] [] = (None, tmp, init_ids, rb)"
    and fail:
      "instantiate_actions ld init_ids
           (fold (\<lambda>kv. map_insert (fst kv) (snd kv)) tmp hs, ugh, cs) rb =
         (Some t, (hs', ugh', cs'), rb') \<or>
       (\<exists>act1 rb1.
          instantiate_actions ld init_ids
              (fold (\<lambda>kv. map_insert (fst kv) (snd kv)) tmp hs, ugh, cs) rb =
            (None, act1, rb1) \<and>
          execute_actions ld init_ids act1 rb1 = (Some t, (hs', ugh', cs'), rb'))"
  shows "set rb' = set init_ids \<and>
         (\<exists>e. t = TemotoErrorStack e \<and>
              executeById ld ids req (hs, ugh, cs) =
                (Some (FORWARD_TEMOTO_ERROR_STACK ''executeById'' e),
                 (filter (\<lambda>kv. fst kv \<notin> set rb') hs', fold setNodeFinished rb' ugh',
                  cs' @ map ClearAction rb')))"
proof -
  let ?hs1 = "fold (\<lambda>kv. map_insert (fst kv) (snd kv)) tmp hs"
  from load_handles_inv [OF load] have eq: "init_ids = rb" and d: "distinct init_ids"
    and keys: "set init_ids \<subseteq> fst ` set tmp"
    by auto
  have keys1: "set rb \<subseteq> fst ` set ?hs1"
    using keys eq by (auto simp: bulk_insert_keys)
  have sub: "set init_ids \<subseteq> set rb" using eq by simp
  from fail show ?thesis
  proof
    assume i: "instantiate_actions ld init_ids (?hs1, ugh, cs) rb = (Some t, (hs', ugh', cs'), rb')"
    from instantiate_actions_inv [OF i sub]
    obtain e where rb': "rb' = rb" and k: "fst ` set hs' = fst ` set ?hs1"
      and t: "t = TemotoErrorStack e"
      by auto
    have "rollback rb' (hs', ugh', cs') =
            (None, (filter (\<lambda>kv. fst kv \<notin> set rb') hs', fold setNodeFinished rb' ugh',
                    cs' @ map ClearAction rb'))"
      using d eq rb' k keys1 by (intro rollback_complete) auto
    then show ?thesis
      using load i t rb' eq by (simp add: executeById_def catch_and_rollback_def)
  next
    assume "\<exists>act1 rb1.
          instantiate_actions ld init_ids (?hs1, ugh, cs) rb = (None, act1, rb1) \<and>
          execute_actions ld init_ids act1 rb1 = (Some t, (hs', ugh', cs'), rb')"
    then obtain act1 rb1
      where i0: "instantiate_actions ld init_ids (?hs1, ugh, cs) rb = (None, act1, rb1)"
        and x0: "execute_actions ld init_ids act1 rb1 = (Some t, (hs', ugh', cs'), rb')"
      by blast
    obtain hs1 ugh1 cs1 where act1: "act1 = (hs1, ugh1, cs1)"
      by (cases act1)
    from i0 x0 act1
    have i: "instantiate_actions ld init_ids (?hs1, ugh, cs) rb = (None, (hs1, ugh1, cs1), rb1)"
      and x: "execute_actions ld init_ids (hs1, ugh1, cs1) rb1 = (Some t, (hs', ugh', cs'), rb')"
      by simp_all
    from instantiate_actions_inv [OF i sub]
    have rb1: "rb1 = rb" and k1: "fst ` set hs1 = fst ` set ?hs1" by simp_all
    from execute_actions_inv [OF x] sub rb1
    obtain e where rb': "rb' = rb" and k: "fst ` set hs' = fst ` set hs1"
      and t: "t = TemotoErrorStack e"
      by auto
    have "rollback rb' (hs', ugh', cs') =
            (None, (filter (\<lambda>kv. fst kv \<notin> set rb') hs', fold setNodeFinished rb' ugh',
                    cs' @ map ClearAction rb'))"
      using d eq rb' k k1 keys1 by (intro rollback_complete) auto
    then show ?thesis
      using load i x t rb' eq by (simp add: executeById_def catch_and_rollback_def)
  qed
qed


theorem executeById_rollback_witness:
  "executeById failing_loader [0, 1] True ([], pair_graph, []) =
     (Some (TemotoErrorStack
        [''executeById'', ''Cannot execute the actions because: no thread'']),
      ([], fold setNodeFinished [0, 1] (setNodeError 1 (setNodeActive 0 pair_graph)),
       [InstantiateAction 0, InstantiateAction 1, ExecuteActionThread 0, ExecuteActionThread 1,
        ClearAction 0, ClearAction 1]))"
proof -
  let ?hA = "ActionHandle (example_umrf ''A'' 0 [] [])"
  let ?hB = "ActionHandle (example_umrf ''B'' 1 [] [])"
  have load: "load_handles pair_graph True [0, 1] [] [] [] =
                (None, [(0, ?hA), (1, ?hB)], [0, 1], [0, 1])"
    by (simp add: pair_graph_def example_node_def example_umrf_def graph_defs handle_defs
          map_insert_def set_insert_def)
  have inst:
    "instantiate_actions failing_loader [0, 1]
         (fold (\<lambda>kv. map_insert (fst kv) (snd kv)) [(0, ?hA), (1, ?hB)] [], pair_graph, [])
         [0, 1] =
       (None, ([(0, ?hA), (1, ?hB)], pair_graph, [InstantiateAction 0, InstantiateAction 1]),
        [0, 1])"
    by (simp add: failing_loader_def example_umrf_def handle_defs map_insert_def map_assign_def
          set_insert_def)
  have exec:
    "execute_actions failing_loader [0, 1]
         ([(0, ?hA), (1, ?hB)], pair_graph, [InstantiateAction 0, InstantiateAction 1]) [0, 1] =
       (Some (TemotoErrorStack [''Cannot execute the actions because: no thread'']),
        ([(0, ?hA\<lparr>handle_state := HANDLE_RUNNING\<rparr>), (1, ?hB)],
         setNodeError 1 (setNodeActive 0 pair_graph),
         [InstantiateAction 0, InstantiateAction 1, ExecuteActionThread 0, ExecuteActionThread 1]),
        [0, 1])"
    by (simp add: failing_loader_def example_umrf_def handle_defs map_insert_def map_assign_def
          set_insert_def CREATE_TEMOTO_ERROR_STACK_def)
  have fail:
    "instantiate_actions failing_loader [0, 1]
         (fold (\<lambda>kv. map_insert (fst kv) (snd kv)) [(0, ?hA), (1, ?hB)] [], pair_graph, []) [0, 1] =
       (Some (TemotoErrorStack [''Cannot execute the actions because: no thread'']),
        ([(0, ?hA\<lparr>handle_state := HANDLE_RUNNING\<rparr>), (1, ?hB)],
         setNodeError 1 (setNodeActive 0 pair_graph),
         [InstantiateAction 0, InstantiateAction 1, ExecuteActionThread 0, ExecuteActionThread 1]),
        [0, 1]) \<or>
     (\<exists>act1 rb1.
        instantiate_actions failing_loader [0, 1]
            (fold (\<lambda>kv. map_insert (fst kv) (snd kv)) [(0, ?hA), (1, ?hB)] [], pair_graph, [])
            [0, 1] =
          (None, act1, rb1) \<and>
        execute_actions failing_loader [0, 1] act1 rb1 =
          (Some (TemotoErrorStack [''Cannot execute the actions because: no thread'']),
           ([(0, ?hA\<lparr>handle_state := HANDLE_RUNNING\<rparr>), (1, ?hB)],
            setNodeError 1 (setNodeActive 0 pair_graph),
            [InstantiateAction 0, InstantiateAction 1, ExecuteActionThread 0,
             ExecuteActionThread 1]),
           [0, 1]))"
    using inst exec by blast
  from executeById_rollback [OF load fail]
  show ?thesis
    by (simp add: FORWARD_TEMOTO_ERROR_STACK_def del: fold_simps)
qed

section \<open>Properties of notifyFinished\<close>

text \<open>
  Claim C1 fails on the code. In the diamond A -> {B, C} -> D, where D requires both B and
  C, the call \<open>notifyFinished\<close> for B returns normally and activates D: the action of D is
  instantiated and started and its node is active, although the relation of D to C is
  required and not received, so that \<open>requiredParentsFinished\<close> is false for D.
\<close>

theorem notifyFinished_activates_unready_child:
  "fst (notifyFinished example_loader 1 [] diamond_executor) = None \<and>
   map (\<lambda>kv. map (\<lambda>n. (node_id n, node_state n, requiredParentsFinished (node_umrf n)))
                (graph_nodes (snd kv)))
     (named_umrf_graphs (snd (notifyFinished example_loader 1 [] diamond_executor))) =
     [[(0, NODE_FINISHED, True), (1, NODE_ACTIVE, True), (2, NODE_ACTIVE, True),
       (3, NODE_ACTIVE, False)]] \<and>
   map fst (named_action_handles (snd (notifyFinished example_loader 1 [] diamond_executor))) =
     [1, 2, 3] \<and>
   handle_calls (snd (notifyFinished example_loader 1 [] diamond_executor)) =
     [InstantiateAction 3, ExecuteActionThread 3]"
  by (simp add: notifyFinished_def example_defs graph_defs handle_defs exec_defs
      copyInputParameters_def copyParameters_def inputParametersReceived_def
      setParentReceived_def asRelation_def rel_eq_def requiredParentsFinished_def)

section \<open>Properties of addUmrfGraph\<close>

text \<open>
  Claim C2 fails on the code. With a graph stored under the name, \<open>addUmrfGraph\<close> for the
  same name returns normally: no error reaches the caller. The stored graphs are as before;
  the id counter has advanced.
\<close>

theorem addUmrfGraph_existing_name_no_error:
  "graphExists single_executor ''single'' \<and>
   addUmrfGraph ''single'' [example_umrf ''B'' 0 [] []] single_executor =
     (None, single_executor\<lparr>action_handle_id_count := 2\<rparr>)"
  by (simp add: addUmrfGraph_def graphExists_def createId_def setId_def UmrfGraph_def
       graph_valid_def precedes_def example_defs graph_defs map_insert_def)

section \<open>Properties of cleanupLoop\<close>

lemma map_assign_fst: "map fst (map_assign k v m) = map fst m"
  by (induction m) (auto simp: map_assign_def)

lemma reap_handles_keys:
  "map fst (named_action_handles (reap_handles ids ex)) = map fst (named_action_handles ex)"
  by (induction ids arbitrary: ex) (auto simp: map_assign_fst split: option.splits)

lemma cleanupLoop_round_keeps_handles:
  "map fst (named_action_handles (cleanupLoop_round ex)) = map fst (named_action_handles ex)"
  by (simp add: cleanupLoop_round_def Let_def reap_handles_keys)

lemma cleanupLoop_round_action_count:
  "getActionCount (cleanupLoop_round ex) = getActionCount ex"
  using cleanupLoop_round_keeps_handles [of ex]
  by (metis getActionCount_def length_map)

text \<open>
  Claim C5 fails on the code. The round of the reaper on a finished, synchronous handle whose
  future is ready sets the node finished (the finished graph is then removed) and clears the
  action, but the handle stays in the registry: the handle count is still one.
\<close>

theorem cleanupLoop_keeps_finished_handle:
  "getActionCount (cleanupLoop_round single_executor) = 1 \<and>
   map fst (named_action_handles (cleanupLoop_round single_executor)) = [0] \<and>
   named_umrf_graphs (cleanupLoop_round single_executor) = [] \<and>
   handle_calls (cleanupLoop_round single_executor) = [ClearAction 0]"
  by (simp add: cleanupLoop_round_def getActionCount_def example_defs graph_defs handle_defs
        map_assign_def)

section \<open>Properties of modifyGraph\<close>

lemma check_diffs_fails:
  "list_ex (\<lambda>d. (operation d = add_umrf) = partOfGraphByName ugh (full_name (diff_umrf d))) diffs
   \<Longrightarrow> \<exists>e. check_diffs key ugh diffs = Some (TemotoErrorStack e)"
  by (induction diffs) (auto simp: CREATE_TEMOTO_ERROR_STACK_def)

lemma check_diffs_passes:
  "\<not> list_ex (\<lambda>d. (operation d = add_umrf) = partOfGraphByName ugh (full_name (diff_umrf d))) diffs
   \<Longrightarrow> check_diffs key ugh diffs = None"
  by (induction diffs) auto

text \<open>
  Claim C3 (as amended). On an existing graph, every diff is checked against the graph as it
  is before the call: \<open>add_umrf\<close> fails if the node is already present, every other operation
  fails if the node is absent. If any diff fails this check, an error is raised and nothing
  is applied: the executor is exactly as before the call.
\<close>

theorem modifyGraph_validation_first:
  "map_of (named_umrf_graphs ex) key = Some ugh \<and>
   list_ex (\<lambda>d. (operation d = add_umrf) = partOfGraphByName ugh (full_name (diff_umrf d))) diffs
   \<longrightarrow> (\<exists>e. modifyGraph key diffs ex = (Some (TemotoErrorStack e), ex))"
proof
  assume h: "map_of (named_umrf_graphs ex) key = Some ugh \<and>
     list_ex (\<lambda>d. (operation d = add_umrf) = partOfGraphByName ugh (full_name (diff_umrf d))) diffs"
  then obtain e where "check_diffs key ugh diffs = Some (TemotoErrorStack e)"
    using check_diffs_fails [of ugh diffs key] by blast
  with h show "\<exists>e. modifyGraph key diffs ex = (Some (TemotoErrorStack e), ex)"
    by (simp add: modifyGraph_def)
qed

theorem modifyGraph_validation_first_witness:
  "map_of (named_umrf_graphs single_executor) ''single'' = Some single_graph \<and>
   modifyGraph ''single''
     [\<lparr>operation = add_umrf, diff_umrf = example_umrf ''B'' 0 [] []\<rparr>,
      \<lparr>operation = ''rename_umrf'', diff_umrf = example_umrf ''Z'' 0 [] []\<rparr>]
     single_executor =
     (Some (TemotoErrorStack
        [''Cannot perform operation '' @ apostrophe @ ''rename_umrf'' @ apostrophe @
         '' because UMRF graph '' @ apostrophe @ ''single'' @ apostrophe @
         '' does not contain node named '' @ apostrophe @ ''Z_0'' @ apostrophe]),
      single_executor)"
  using modifyGraph_validation_first
          [of single_executor "''single''" single_graph
              "[\<lparr>operation = add_umrf, diff_umrf = example_umrf ''B'' 0 [] []\<rparr>,
                \<lparr>operation = ''rename_umrf'', diff_umrf = example_umrf ''Z'' 0 [] []\<rparr>]"]
  by (simp add: modifyGraph_def add_umrf_def CREATE_TEMOTO_ERROR_STACK_def example_defs
        graph_defs)

text \<open>
  Claim C3 as stated fails: the check looks at the presence of the node only. A diff with an
  unsupported operation on a node of the graph passes it; the error is raised when the second
  loop reaches that diff, after the diffs before it were applied. Here the node B has been
  added when the error is raised.
\<close>

theorem modifyGraph_unsupported_operation_counterexample:
  "fst (modifyGraph ''single''
          [\<lparr>operation = add_umrf, diff_umrf = example_umrf ''B'' 0 [] []\<rparr>,
           \<lparr>operation = ''rename_umrf'', diff_umrf = example_umrf ''A'' 0 [] []\<rparr>]
          single_executor) =
     Some (TemotoErrorStack [''No such operation as rename_umrf'']) \<and>
   map (\<lambda>kv. map (\<lambda>n. full_name (node_umrf n)) (graph_nodes (snd kv)))
     (named_umrf_graphs
        (snd (modifyGraph ''single''
                [\<lparr>operation = add_umrf, diff_umrf = example_umrf ''B'' 0 [] []\<rparr>,
                 \<lparr>operation = ''rename_umrf'', diff_umrf = example_umrf ''A'' 0 [] []\<rparr>]
                single_executor))) =
     [[''A_0'', ''B_0'']] \<and>
   map (\<lambda>kv. map (\<lambda>n. full_name (node_umrf n)) (graph_nodes (snd kv)))
     (named_umrf_graphs single_executor) =
     [[''A_0'']]"
  by (simp add: modifyGraph_def add_umrf_def remove_umrf_def add_child_def remove_child_def
      addUmrf_def createId_def setId_def CREATE_TEMOTO_ERROR_STACK_def
      example_defs graph_defs map_assign_def)

section \<open>Properties of executeUmrfGraph\<close>

lemma getUmrfOf_id: "getUmrfOf ugh i = Some u \<Longrightarrow> umrf_id u = i"
  by (auto simp: getUmrfOf_def getNode_def node_id_def find_Some_iff)

lemma root_present: "i \<in> set (getRootNodes ugh) \<Longrightarrow> getUmrfOf ugh i \<noteq> None"
  by (auto simp: getRootNodes_def getUmrfOf_def getNode_def find_None_iff)

lemma fold_set_insert_set: "set (fold set_insert ids acc) = set acc \<union> set ids"
  by (induction ids arbitrary: acc) (auto simp: set_insert_set)

lemma set_insert_sorted: "sorted xs \<Longrightarrow> sorted (set_insert x xs)"
  by (simp add: set_insert_def sorted_insort)

lemma fold_set_insert_sorted:
  "sorted acc \<Longrightarrow> distinct acc \<Longrightarrow>
   sorted (fold set_insert ids acc) \<and> distinct (fold set_insert ids acc)"
  by (induction ids arbitrary: acc) (auto simp: set_insert_sorted set_insert_distinct)

lemma fold_set_insert_eq: "fold set_insert ids [] = sorted_list_of_set (set ids)"
proof -
  have "sorted (fold set_insert ids []) \<and> distinct (fold set_insert ids [])"
    by (rule fold_set_insert_sorted) simp_all
  moreover have "set (fold set_insert ids []) = set ids"
    by (simp add: fold_set_insert_set)
  ultimately show ?thesis
    by (metis sorted_list_of_set.idem_if_sorted_distinct)
qed

lemma load_handles_result:
  "fst (load_handles ugh True ids tmp init rb) = None \<longleftrightarrow>
     list_all (\<lambda>i. case getUmrfOf ugh i of None \<Rightarrow> False | Some u \<Rightarrow> isUmrfCorrect u) ids"
  by (induction ids arbitrary: tmp init rb)
     (auto simp: getState_def ActionHandle_def CREATE_TEMOTO_ERROR_STACK_def split: option.splits)

lemma load_handles_ok:
  "list_all (\<lambda>i. case getUmrfOf ugh i of None \<Rightarrow> False | Some u \<Rightarrow> isUmrfCorrect u) ids \<Longrightarrow>
   load_handles ugh req ids tmp init rb =
     (None, fold (\<lambda>i. map_insert i (ActionHandle (the (getUmrfOf ugh i)))) ids tmp,
      fold set_insert ids init, fold set_insert ids rb)"
proof (induction ids arbitrary: tmp init rb)
  case Nil
  then show ?case by simp
next
  case (Cons a ids)
  then obtain u where u: "getUmrfOf ugh a = Some u" "isUmrfCorrect u"
    by (auto split: option.splits)
  from getUmrfOf_id [OF u(1)] have "getHandleId (ActionHandle u) = a"
    by (simp add: getHandleId_def ActionHandle_def)
  with u Cons show ?case
    by (simp add: getState_def ActionHandle_def)
qed

lemma catch_and_rollback_fails: "fst (catch_and_rollback t act rb) \<noteq> None"
  by (auto simp: catch_and_rollback_def split: thrown.splits prod.splits option.splits)

lemma handles_wf_lookup:
  "handles_wf hs \<Longrightarrow> map_of hs k = Some ah \<Longrightarrow> getHandleId ah = k"
  by (auto simp: handles_wf_def list_all_iff dest: map_of_SomeD)

lemma map_assign_same:
  "distinct (map fst hs) \<Longrightarrow> map_of hs k = Some v \<Longrightarrow> map_assign k v hs = hs"
  unfolding map_assign_def
  by (intro map_idI) (auto dest: map_of_SomeD simp: eq_key_imp_eq_value)

lemma handles_wf_insert:
  "handles_wf hs \<Longrightarrow> getHandleId ah = k \<Longrightarrow> handles_wf (map_insert k ah hs)"
  by (auto simp: handles_wf_def map_insert_def map_of_eq_None_iff split: option.splits)

lemma handles_wf_assign:
  "handles_wf hs \<Longrightarrow> getHandleId v = k \<Longrightarrow> handles_wf (map_assign k v hs)"
proof -
  assume wf: "handles_wf hs" and k: "getHandleId v = k"
  have "distinct (map fst (map_assign k v hs))"
    using wf by (simp add: map_assign_fst handles_wf_def)
  moreover have "list_all (\<lambda>kv. getHandleId (snd kv) = fst kv) (map_assign k v hs)"
    using wf k by (auto simp: handles_wf_def map_assign_def list_all_iff)
  ultimately show ?thesis by (simp add: handles_wf_def)
qed


lemma run_handles_step:
  assumes wf: "handles_wf hs" and ah: "map_of hs a = Some ah"
  shows "run_handles ids (map_assign a (ah\<lparr>handle_state := HANDLE_RUNNING\<rparr>) hs) =
         run_handles (a # ids) hs"
proof -
  have key: "\<And>kv. kv \<in> set hs \<Longrightarrow> fst kv = a \<Longrightarrow> snd kv = ah"
    using wf ah by (auto simp: handles_wf_def dest: map_of_SomeD eq_key_imp_eq_value)
  show ?thesis
    unfolding run_handles_def map_assign_def
    by (auto simp: key)
qed

lemma run_handles_keys: "map fst (run_handles ids hs) = map fst hs"
  by (induction hs) (auto simp: run_handles_def)

lemma run_handles_lookup:
  "i \<in> set ids \<Longrightarrow> map_of hs i = Some ah \<Longrightarrow>
   map_of (run_handles ids hs) i = Some (ah\<lparr>handle_state := HANDLE_RUNNING\<rparr>)"
  by (induction hs) (auto simp: run_handles_def)

lemma instantiate_actions_result:
  "handles_wf hs \<Longrightarrow> set ids \<subseteq> fst ` set hs \<Longrightarrow>
   (fst (instantiate_actions ld ids (hs, ugh, cs) rb) = None) =
     list_all (\<lambda>i. instantiate_throws ld i = None) ids \<and>
   (list_all (\<lambda>i. instantiate_throws ld i = None) ids \<longrightarrow>
      instantiate_actions ld ids (hs, ugh, cs) rb =
        (None, (hs, ugh, cs @ map InstantiateAction ids), fold set_insert ids rb))"
proof (induction ids arbitrary: cs rb)
  case Nil
  then show ?case by simp
next
  case (Cons a ids)
  from Cons.prems(2) obtain ah where ah: "map_of hs a = Some ah"
    by (cases "map_of hs a") (auto simp: map_of_eq_None_iff)
  from handles_wf_lookup [OF Cons.prems(1) ah] have id: "getHandleId ah = a" .
  have same: "map_assign a ah hs = hs"
    using Cons.prems(1) ah by (intro map_assign_same) (simp_all add: handles_wf_def)
  from Cons.prems(2) have sub: "set ids \<subseteq> fst ` set hs" by simp
  show ?case
  proof (cases "instantiate_throws ld a")
    case None
    with ah id same Cons.IH [OF Cons.prems(1) sub, of "cs @ [InstantiateAction a]" "set_insert a rb"]
    show ?thesis by (simp add: instantiateAction_def)
  next
    case (Some t)
    with ah id show ?thesis
      by (cases t)
         (simp_all add: instantiateAction_def CREATE_TEMOTO_ERROR_STACK_def
            FORWARD_TEMOTO_ERROR_STACK_def)
  qed
qed

lemma execute_actions_result:
  "handles_wf hs \<Longrightarrow> set ids \<subseteq> fst ` set hs \<Longrightarrow>
   (fst (execute_actions ld ids (hs, ugh, cs) rb) = None) =
     list_all (\<lambda>i. execute_throws ld i = None) ids \<and>
   (list_all (\<lambda>i. execute_throws ld i = None) ids \<longrightarrow>
      execute_actions ld ids (hs, ugh, cs) rb =
        (None, (run_handles ids hs, fold setNodeActive ids ugh,
                cs @ map ExecuteActionThread ids), fold set_insert ids rb))"
proof (induction ids arbitrary: hs ugh cs rb)
  case Nil
  have "run_handles [] hs = hs" by (simp add: run_handles_def)
  then show ?case by simp
next
  case (Cons a ids)
  from Cons.prems(2) obtain ah where ah: "map_of hs a = Some ah"
    by (cases "map_of hs a") (auto simp: map_of_eq_None_iff)
  from handles_wf_lookup [OF Cons.prems(1) ah] have id: "getHandleId ah = a" .
  let ?hs1 = "map_assign a (ah\<lparr>handle_state := HANDLE_RUNNING\<rparr>) hs"
  have wf1: "handles_wf ?hs1"
    using Cons.prems(1) id by (intro handles_wf_assign) (simp_all add: getHandleId_def)
  have sub: "set ids \<subseteq> fst ` set ?hs1"
    using Cons.prems(2) by (simp add: map_assign_keys)
  note step = run_handles_step [OF Cons.prems(1) ah, of ids]
  show ?case
  proof (cases "execute_throws ld a")
    case None
    with ah id step
      Cons.IH [OF wf1 sub, of "setNodeActive a ugh" "cs @ [ExecuteActionThread a]" "set_insert a rb"]
    show ?thesis by (simp add: executeActionThread_def)
  next
    case (Some t)
    with ah id show ?thesis
      by (cases t)
         (simp_all add: executeActionThread_def CREATE_TEMOTO_ERROR_STACK_def
            FORWARD_TEMOTO_ERROR_STACK_def)
  qed
qed


lemma built_handles_wf:
  "handles_wf tmp \<Longrightarrow> list_all (\<lambda>i. getUmrfOf ugh i \<noteq> None) ids \<Longrightarrow>
   handles_wf (fold (\<lambda>i. map_insert i (ActionHandle (the (getUmrfOf ugh i)))) ids tmp) \<and>
   fst ` set (fold (\<lambda>i. map_insert i (ActionHandle (the (getUmrfOf ugh i)))) ids tmp) =
     fst ` set tmp \<union> set ids"
proof (induction ids arbitrary: tmp)
  case Nil
  then show ?case by simp
next
  case (Cons a ids)
  then obtain u where u: "getUmrfOf ugh a = Some u" by auto
  from getUmrfOf_id [OF u] have "getHandleId (ActionHandle u) = a"
    by (simp add: getHandleId_def ActionHandle_def)
  with Cons.prems(1) have wf1: "handles_wf (map_insert a (ActionHandle u) tmp)"
    by (intro handles_wf_insert)
  from Cons.prems(2) have rest: "list_all (\<lambda>i. getUmrfOf ugh i \<noteq> None) ids" by simp
  from Cons.IH [OF wf1 rest] u show ?case
    by (auto simp: map_insert_keys)
qed

lemma bulk_insert_wf:
  "handles_wf hs \<Longrightarrow> list_all (\<lambda>kv. getHandleId (snd kv) = fst kv) tmp \<Longrightarrow>
   handles_wf (fold (\<lambda>kv. map_insert (fst kv) (snd kv)) tmp hs)"
  by (induction tmp arbitrary: hs) (auto simp: handles_wf_insert)

lemma fold_setNodeActive:
  "graph_nodes (fold setNodeActive ids g) =
     map (\<lambda>n. if node_id n \<in> set ids then n\<lparr>node_state := NODE_ACTIVE\<rparr> else n) (graph_nodes g) \<and>
   graph_state (fold setNodeActive ids g) = (if ids = [] then graph_state g else GRAPH_ACTIVE) \<and>
   graph_name (fold setNodeActive ids g) = graph_name g"
proof (induction ids arbitrary: g)
  case Nil
  then show ?case by (simp add: map_idI)
next
  case (Cons a ids)
  have nid: "\<And>n. node_id (n\<lparr>node_state := NODE_ACTIVE\<rparr>) = node_id n"
    by (simp add: node_id_def)
  show ?case
    using Cons.IH [of "setNodeActive a g"]
    by (auto simp: setNodeActive_def modifyNode_def nid)
qed

lemma map_of_map_assign:
  "map_of m k = Some v \<Longrightarrow> map_of (map_assign k v' m) k = Some v'"
  by (induction m) (auto simp: map_assign_def split: if_splits)

lemma list_all_set_eq: "set xs = set ys \<Longrightarrow> list_all P xs = list_all P ys"
  by (simp add: list_all_iff)

lemma executeById_required:
  assumes wf: "handles_wf hs"
  shows "(fst (executeById ld ids True (hs, ugh, cs)) = None) = list_all (root_ready ld ugh) ids \<and>
         (list_all (root_ready ld ugh) ids \<longrightarrow>
            executeById ld ids True (hs, ugh, cs) =
              (None,
               (run_handles (sorted_list_of_set (set ids))
                  (fold (\<lambda>kv. map_insert (fst kv) (snd kv))
                     (fold (\<lambda>i. map_insert i (ActionHandle (the (getUmrfOf ugh i)))) ids []) hs),
                fold setNodeActive (sorted_list_of_set (set ids)) ugh,
                cs @ map InstantiateAction (sorted_list_of_set (set ids)) @
                  map ExecuteActionThread (sorted_list_of_set (set ids)))))"
proof (cases "list_all (\<lambda>i. case getUmrfOf ugh i of None \<Rightarrow> False | Some u \<Rightarrow> isUmrfCorrect u) ids")
  case False
  then have "fst (load_handles ugh True ids [] [] []) \<noteq> None"
    by (simp add: load_handles_result)
  then obtain t tmp init rb where "load_handles ugh True ids [] [] [] = (Some t, tmp, init, rb)"
    by (cases "load_handles ugh True ids [] [] []") auto
  then have "fst (executeById ld ids True (hs, ugh, cs)) \<noteq> None"
    by (simp add: executeById_def catch_and_rollback_fails)
  moreover from False have "\<not> list_all (root_ready ld ugh) ids"
    by (auto simp: list_all_iff root_ready_def)
  ultimately show ?thesis by simp
next
  case True
  let ?S = "sorted_list_of_set (set ids)"
  let ?tmp = "fold (\<lambda>i. map_insert i (ActionHandle (the (getUmrfOf ugh i)))) ids []"
  let ?hs1 = "fold (\<lambda>kv. map_insert (fst kv) (snd kv)) ?tmp hs"
  have load: "load_handles ugh True ids [] [] [] = (None, ?tmp, ?S, ?S)"
    using load_handles_ok [OF True, of True "[]" "[]" "[]"] by (simp add: fold_set_insert_eq)
  have present: "list_all (\<lambda>i. getUmrfOf ugh i \<noteq> None) ids"
    using True by (auto simp: list_all_iff split: option.splits)
  have "handles_wf []" by (simp add: handles_wf_def)
  from built_handles_wf [OF this present]
  have tmp_wf: "handles_wf ?tmp" and tmp_keys: "fst ` set ?tmp = set ids" by simp_all
  have wf1: "handles_wf ?hs1"
    using wf tmp_wf by (intro bulk_insert_wf) (simp_all add: handles_wf_def)
  have S: "set ?S = set ids" by simp
  have sub: "set ?S \<subseteq> fst ` set ?hs1"
    using tmp_keys by (simp add: bulk_insert_keys)
  have ready: "list_all (root_ready ld ugh) ids =
               (list_all (\<lambda>i. instantiate_throws ld i = None) ?S \<and>
                list_all (\<lambda>i. execute_throws ld i = None) ?S)"
    using True by (auto simp: list_all_iff root_ready_def)
  note inst = instantiate_actions_result [OF wf1 sub, of ld ugh cs ?S]
  show ?thesis
  proof (cases "list_all (\<lambda>i. instantiate_throws ld i = None) ?S")
    case False
    with inst have "fst (instantiate_actions ld ?S (?hs1, ugh, cs) ?S) \<noteq> None" by simp
    then obtain t act1 rb1
      where "instantiate_actions ld ?S (?hs1, ugh, cs) ?S = (Some t, act1, rb1)"
      by (cases "instantiate_actions ld ?S (?hs1, ugh, cs) ?S") auto
    with load have "fst (executeById ld ids True (hs, ugh, cs)) \<noteq> None"
      by (simp add: executeById_def catch_and_rollback_fails)
    with False ready show ?thesis by simp
  next
    case iok: True
    with inst
    have i: "instantiate_actions ld ?S (?hs1, ugh, cs) ?S =
               (None, (?hs1, ugh, cs @ map InstantiateAction ?S), fold set_insert ?S ?S)"
      by simp
    note exec = execute_actions_result
                  [OF wf1 sub, of ld ugh "cs @ map InstantiateAction ?S" "fold set_insert ?S ?S"]
    show ?thesis
    proof (cases "list_all (\<lambda>i. execute_throws ld i = None) ?S")
      case False
      with exec
      have "fst (execute_actions ld ?S (?hs1, ugh, cs @ map InstantiateAction ?S)
                   (fold set_insert ?S ?S)) \<noteq> None"
        by simp
      then obtain t act2 rb2
        where "execute_actions ld ?S (?hs1, ugh, cs @ map InstantiateAction ?S)
                 (fold set_insert ?S ?S) = (Some t, act2, rb2)"
        by (cases "execute_actions ld ?S (?hs1, ugh, cs @ map InstantiateAction ?S)
                     (fold set_insert ?S ?S)") auto
      with load i have "fst (executeById ld ids True (hs, ugh, cs)) \<noteq> None"
        by (simp add: executeById_def catch_and_rollback_fails)
      with False ready show ?thesis by simp
    next
      case xok: True
      with exec
      have x: "execute_actions ld ?S (?hs1, ugh, cs @ map InstantiateAction ?S)
                 (fold set_insert ?S ?S) =
               (None, (run_handles ?S ?hs1, fold setNodeActive ?S ugh,
                       (cs @ map InstantiateAction ?S) @ map ExecuteActionThread ?S),
                fold set_insert ?S (fold set_insert ?S ?S))"
        by simp
      have "executeById ld ids True (hs, ugh, cs) =
              (None, (run_handles ?S ?hs1, fold setNodeActive ?S ugh,
                      cs @ map InstantiateAction ?S @ map ExecuteActionThread ?S))"
        using load i x by (simp add: executeById_def)
      with iok xok ready show ?thesis by simp
    qed
  qed
qed


lemma node_id_state: "node_id (n\<lparr>node_state := s\<rparr>) = node_id n"
  by (simp add: node_id_def)

lemma finish_nodes_setNodeError:
  "a \<in> set ids \<Longrightarrow> finish_nodes ids (graph_nodes (setNodeError a g)) = finish_nodes ids (graph_nodes g)"
  by (auto simp: finish_nodes_def setNodeError_def modifyNode_def node_id_state)

lemma finish_nodes_setNodeActive:
  "a \<in> set ids \<Longrightarrow> finish_nodes ids (graph_nodes (setNodeActive a g)) = finish_nodes ids (graph_nodes g)"
  by (auto simp: finish_nodes_def setNodeActive_def modifyNode_def node_id_state)

lemma setNodeFinished_nodes:
  "graph_nodes (setNodeFinished a g) = finish_nodes [a] (graph_nodes g)"
  by (auto simp: finish_nodes_def setNodeFinished_def modifyNode_def Let_def)

lemma fold_setNodeFinished_nodes:
  "graph_nodes (fold setNodeFinished ids g) = finish_nodes ids (graph_nodes g)"
proof (induction ids arbitrary: g)
  case Nil
  then show ?case by (simp add: finish_nodes_def map_idI)
next
  case (Cons a ids)
  have "finish_nodes ids (finish_nodes [a] (graph_nodes g)) = finish_nodes (a # ids) (graph_nodes g)"
    by (auto simp: finish_nodes_def node_id_state)
  with Cons.IH [of "setNodeFinished a g"] show ?case
    by (simp add: setNodeFinished_nodes)
qed

lemma filter_map_assign:
  "k \<in> set ids \<Longrightarrow>
   filter (\<lambda>kv. fst kv \<notin> set ids) (map_assign k v hs) = filter (\<lambda>kv. fst kv \<notin> set ids) hs"
  by (induction hs) (auto simp: map_assign_def)

lemma instantiate_actions_outside:
  "instantiate_actions ld ids (hs, ugh, cs) rb = (r, (hs', ugh', cs'), rb') \<Longrightarrow>
   set ids \<subseteq> set S \<Longrightarrow>
   finish_nodes S (graph_nodes ugh') = finish_nodes S (graph_nodes ugh) \<and>
   filter (\<lambda>kv. fst kv \<notin> set S) hs' = filter (\<lambda>kv. fst kv \<notin> set S) hs \<and>
   (\<exists>cs''. cs' = cs @ cs'')"
proof (induction ids arbitrary: hs ugh cs rb)
  case Nil
  then show ?case by simp
next
  case (Cons a ids)
  from Cons.prems(2) have a: "a \<in> set S" and sub: "set ids \<subseteq> set S" by simp_all
  show ?case
  proof (cases "map_of hs a")
    case None
    with Cons.prems(1) a show ?thesis by (auto simp: finish_nodes_setNodeError)
  next
    case (Some ah)
    obtain t ah' where ia: "instantiateAction ld ah = (t, ah')" by (cases "instantiateAction ld ah")
    show ?thesis
    proof (cases t)
      case None
      with Some ia Cons.prems(1)
      have "instantiate_actions ld ids (map_assign a ah' hs, ugh, cs @ [InstantiateAction a])
              (set_insert a rb) = (r, (hs', ugh', cs'), rb')"
        by simp
      from Cons.IH [OF this sub] a show ?thesis by (auto simp: filter_map_assign)
    next
      case (Some x)
      with \<open>map_of hs a = Some ah\<close> ia Cons.prems(1) a show ?thesis
        by (cases x) (auto simp: finish_nodes_setNodeError filter_map_assign)
    qed
  qed
qed

lemma execute_actions_outside:
  "execute_actions ld ids (hs, ugh, cs) rb = (r, (hs', ugh', cs'), rb') \<Longrightarrow>
   set ids \<subseteq> set S \<Longrightarrow>
   finish_nodes S (graph_nodes ugh') = finish_nodes S (graph_nodes ugh) \<and>
   filter (\<lambda>kv. fst kv \<notin> set S) hs' = filter (\<lambda>kv. fst kv \<notin> set S) hs \<and>
   (\<exists>cs''. cs' = cs @ cs'')"
proof (induction ids arbitrary: hs ugh cs rb)
  case Nil
  then show ?case by simp
next
  case (Cons a ids)
  from Cons.prems(2) have a: "a \<in> set S" and sub: "set ids \<subseteq> set S" by simp_all
  show ?case
  proof (cases "map_of hs a")
    case None
    with Cons.prems(1) a show ?thesis by (auto simp: finish_nodes_setNodeError)
  next
    case (Some ah)
    obtain t ah' where ia: "executeActionThread ld ah = (t, ah')"
      by (cases "executeActionThread ld ah")
    show ?thesis
    proof (cases t)
      case None
      with Some ia Cons.prems(1)
      have "execute_actions ld ids
              (map_assign a ah' hs, setNodeActive a ugh, cs @ [ExecuteActionThread a])
              (set_insert a rb) = (r, (hs', ugh', cs'), rb')"
        by simp
      from Cons.IH [OF this sub] a show ?thesis
        by (auto simp: filter_map_assign finish_nodes_setNodeActive)
    next
      case (Some x)
      with \<open>map_of hs a = Some ah\<close> ia Cons.prems(1) a show ?thesis
        by (cases x) (auto simp: finish_nodes_setNodeError filter_map_assign)
    qed
  qed
qed

lemma bulk_insert_outside:
  "fst ` set tmp \<subseteq> set S \<Longrightarrow>
   filter (\<lambda>kv. fst kv \<notin> set S) (fold (\<lambda>kv. map_insert (fst kv) (snd kv)) tmp hs) =
   filter (\<lambda>kv. fst kv \<notin> set S) hs"
  by (induction tmp arbitrary: hs) (auto simp: map_insert_def split: option.splits)

lemma fresh_filter:
  "list_all (\<lambda>i. map_of hs i = None) S \<Longrightarrow> filter (\<lambda>kv. fst kv \<notin> set S) hs = hs"
  by (auto simp: list_all_iff map_of_eq_None_iff filter_id_conv)

lemma load_handles_rb:
  "load_handles ugh req ids tmp init rb = (r, tmp', init', rb') \<Longrightarrow> set rb' \<subseteq> set rb \<union> set ids"
proof (induction ids arbitrary: tmp init rb)
  case Nil
  then show ?case by auto
next
  case (Cons a ids)
  show ?case
  proof (cases "getUmrfOf ugh a")
    case None
    with Cons.prems show ?thesis by auto
  next
    case (Some u)
    from getUmrfOf_id [OF Some] have id: "getHandleId (ActionHandle u) = a"
      by (simp add: getHandleId_def ActionHandle_def)
    show ?thesis
    proof (cases "getState (ActionHandle u) = HANDLE_INITIALIZED")
      case True
      with Some id Cons.prems
      have "load_handles ugh req ids (map_insert a (ActionHandle u) tmp) (set_insert a init)
              (set_insert a rb) = (r, tmp', init', rb')"
        by simp
      from Cons.IH [OF this] show ?thesis by (auto simp: set_insert_set)
    next
      case False
      show ?thesis
      proof (cases req)
        case True
        with False Some Cons.prems show ?thesis by auto
      next
        case no: False
        with False Some Cons.prems
        have "load_handles ugh req ids tmp init rb = (r, tmp', init', rb')" by simp
        from Cons.IH [OF this] show ?thesis by auto
      qed
    qed
  qed
qed

lemma rollback_fresh:
  "list_all (\<lambda>i. map_of hs i = None) rb \<Longrightarrow> snd (rollback rb (hs, ugh, cs)) = (hs, ugh, cs)"
  by (cases rb) simp_all

lemma catch_and_rollback_fresh:
  "list_all (\<lambda>i. map_of hs i = None) rb \<Longrightarrow>
   snd (catch_and_rollback t (hs, ugh, cs) rb) = (hs, ugh, cs)"
  using rollback_fresh [of hs rb ugh cs]
  by (auto simp: catch_and_rollback_def split: thrown.splits prod.splits option.splits)


lemma finish_nodes_set: "set a = set b \<Longrightarrow> finish_nodes a ns = finish_nodes b ns"
  by (simp add: finish_nodes_def)

lemma executeById_required_failure:
  assumes wf: "handles_wf hs"
    and fresh: "list_all (\<lambda>i. map_of hs i = None) ids"
    and notready: "\<not> list_all (root_ready ld ugh) ids"
  shows "(\<not> list_all (handle_built ugh) ids \<longrightarrow>
            snd (executeById ld ids True (hs, ugh, cs)) = (hs, ugh, cs)) \<and>
         (list_all (handle_built ugh) ids \<longrightarrow>
            (\<exists>ugh' cs'.
                snd (executeById ld ids True (hs, ugh, cs)) =
                  (hs, ugh', cs @ cs' @ map ClearAction (sorted_list_of_set (set ids))) \<and>
                graph_nodes ugh' = finish_nodes ids (graph_nodes ugh)))"
proof (intro conjI impI)
  assume "\<not> list_all (handle_built ugh) ids"
  then have "fst (load_handles ugh True ids [] [] []) \<noteq> None"
    by (simp add: load_handles_result handle_built_def [abs_def])
  then obtain t tmp init rb where l: "load_handles ugh True ids [] [] [] = (Some t, tmp, init, rb)"
    by (cases "load_handles ugh True ids [] [] []") auto
  from load_handles_rb [OF l] have "set rb \<subseteq> set ids" by simp
  with fresh have "list_all (\<lambda>i. map_of hs i = None) rb"
    by (auto simp: list_all_iff)
  from catch_and_rollback_fresh [OF this, of t ugh cs] l
  show "snd (executeById ld ids True (hs, ugh, cs)) = (hs, ugh, cs)"
    by (simp add: executeById_def)
next
  assume built: "list_all (handle_built ugh) ids"
  let ?S = "sorted_list_of_set (set ids)"
  let ?tmp = "fold (\<lambda>i. map_insert i (ActionHandle (the (getUmrfOf ugh i)))) ids []"
  let ?hs1 = "fold (\<lambda>kv. map_insert (fst kv) (snd kv)) ?tmp hs"
  from built
  have ok: "list_all (\<lambda>i. case getUmrfOf ugh i of None \<Rightarrow> False | Some u \<Rightarrow> isUmrfCorrect u) ids"
    by (simp add: handle_built_def [abs_def])
  have load: "load_handles ugh True ids [] [] [] = (None, ?tmp, ?S, ?S)"
    using load_handles_ok [OF ok, of True "[]" "[]" "[]"] by (simp add: fold_set_insert_eq)
  have present: "list_all (\<lambda>i. getUmrfOf ugh i \<noteq> None) ids"
    using ok by (auto simp: list_all_iff split: option.splits)
  have "handles_wf []" by (simp add: handles_wf_def)
  from built_handles_wf [OF this present]
  have tmp_keys: "fst ` set ?tmp = set ids" by simp
  have S: "set ?S = set ids" and dS: "distinct ?S" by simp_all
  have keys1: "set ?S \<subseteq> fst ` set ?hs1"
    using tmp_keys by (simp add: bulk_insert_keys)
  have freshS: "list_all (\<lambda>i. map_of hs i = None) ?S"
    using fresh by (simp add: list_all_iff)
  have outside1: "filter (\<lambda>kv. fst kv \<notin> set ?S) ?hs1 = hs"
    using bulk_insert_outside [of ?tmp ?S hs] tmp_keys fresh_filter [OF freshS] by simp
  have fails: "fst (executeById ld ids True (hs, ugh, cs)) \<noteq> None"
    using executeById_required [OF wf, of ld ids ugh cs] notready by simp
  obtain r1 act1 rb1
    where i0: "instantiate_actions ld ?S (?hs1, ugh, cs) ?S = (r1, act1, rb1)"
    by (cases "instantiate_actions ld ?S (?hs1, ugh, cs) ?S")
  obtain hs' ugh' cs' where act1: "act1 = (hs', ugh', cs')"
    by (cases act1)
  from i0 act1
  have i: "instantiate_actions ld ?S (?hs1, ugh, cs) ?S = (r1, (hs', ugh', cs'), rb1)"
    by simp
  from instantiate_actions_inv [OF i]
  have rb1: "rb1 = ?S" and k1: "fst ` set hs' = fst ` set ?hs1"
    and e1: "r1 = None \<or> (\<exists>e. r1 = Some (TemotoErrorStack e))"
    by simp_all
  from instantiate_actions_outside [OF i, of ?S]
  obtain c1 where n1: "finish_nodes ?S (graph_nodes ugh') = finish_nodes ?S (graph_nodes ugh)"
    and o1: "filter (\<lambda>kv. fst kv \<notin> set ?S) hs' = filter (\<lambda>kv. fst kv \<notin> set ?S) ?hs1"
    and c1: "cs' = cs @ c1"
    by auto
  show "\<exists>ugh' cs'.
          snd (executeById ld ids True (hs, ugh, cs)) = (hs, ugh', cs @ cs' @ map ClearAction ?S) \<and>
          graph_nodes ugh' = finish_nodes ids (graph_nodes ugh)"
  proof (cases r1)
    case (Some t)
    with e1 obtain e where t: "t = TemotoErrorStack e" by auto
    have rb: "rollback ?S (hs', ugh', cs') =
                (None, (filter (\<lambda>kv. fst kv \<notin> set ?S) hs', fold setNodeFinished ?S ugh',
                        cs' @ map ClearAction ?S))"
      using dS k1 keys1 by (intro rollback_complete) simp_all
    have "snd (executeById ld ids True (hs, ugh, cs)) =
            (hs, fold setNodeFinished ?S ugh', cs @ c1 @ map ClearAction ?S)"
      using load i Some t rb1 rb o1 outside1 c1
      by (simp add: executeById_def catch_and_rollback_def)
    moreover have "graph_nodes (fold setNodeFinished ?S ugh') = finish_nodes ids (graph_nodes ugh)"
      using n1 finish_nodes_set [OF S] by (simp add: fold_setNodeFinished_nodes)
    ultimately show ?thesis by blast
  next
    case None
    obtain r2 act2 rb2
      where x0: "execute_actions ld ?S (hs', ugh', cs') rb1 = (r2, act2, rb2)"
      by (cases "execute_actions ld ?S (hs', ugh', cs') rb1")
    obtain hs'' ugh'' cs'' where act2: "act2 = (hs'', ugh'', cs'')"
      by (cases act2)
    from x0 act2
    have x: "execute_actions ld ?S (hs', ugh', cs') rb1 = (r2, (hs'', ugh'', cs''), rb2)"
      by simp
    from execute_actions_inv [OF x] rb1
    have rb2: "rb2 = ?S" and k2: "fst ` set hs'' = fst ` set hs'"
      and e2: "r2 = None \<or> (\<exists>e. r2 = Some (TemotoErrorStack e))"
      by simp_all
    from execute_actions_outside [OF x, of ?S]
    obtain c2 where n2: "finish_nodes ?S (graph_nodes ugh'') = finish_nodes ?S (graph_nodes ugh')"
      and o2: "filter (\<lambda>kv. fst kv \<notin> set ?S) hs'' = filter (\<lambda>kv. fst kv \<notin> set ?S) hs'"
      and c2: "cs'' = cs' @ c2"
      by auto
    have "r2 \<noteq> None"
    proof
      assume "r2 = None"
      with load i None x have "fst (executeById ld ids True (hs, ugh, cs)) = None"
        by (simp add: executeById_def)
      with fails show False by simp
    qed
    with e2 obtain e where t: "r2 = Some (TemotoErrorStack e)" by auto
    have rb: "rollback ?S (hs'', ugh'', cs'') =
                (None, (filter (\<lambda>kv. fst kv \<notin> set ?S) hs'', fold setNodeFinished ?S ugh'',
                        cs'' @ map ClearAction ?S))"
      using dS k1 k2 keys1 by (intro rollback_complete) simp_all
    have "snd (executeById ld ids True (hs, ugh, cs)) =
            (hs, fold setNodeFinished ?S ugh'', cs @ (c1 @ c2) @ map ClearAction ?S)"
      using load i None x t rb2 rb o1 o2 outside1 c1 c2
      by (simp add: executeById_def catch_and_rollback_def)
    moreover have "graph_nodes (fold setNodeFinished ?S ugh'') = finish_nodes ids (graph_nodes ugh)"
      using n1 n2 finish_nodes_set [OF S] by (simp add: fold_setNodeFinished_nodes)
    ultimately show ?thesis by blast
  qed
qed

text \<open>
  Claim C7 (as amended). \<open>executeUmrfGraph\<close> raises an error and leaves the executor as it
  was when no graph is stored under the name, and when the graph is not in its initialised
  state. Otherwise it runs \<open>executeById\<close> on the root nodes with \<open>initialized_requrired\<close>
  set: it returns normally exactly when every root is ready, and then precisely the nodes
  with the id of a root are active, the actions of the roots and no others were instantiated
  and started, and the handle of every root is running. A root that is not ready makes the
  call raise an error and aborts the launch (for a registry that holds no handle under the id
  of a root before the call): when the handle of some root cannot be built, the executor is
  left exactly as it was; when instantiating or starting the action of a root throws, the
  registry is as before the call, so no handle of a root remains, \<open>clearAction\<close> was called
  for every root, and precisely the nodes with the id of a root are finished.
\<close>

theorem executeUmrfGraph_launch:
  assumes wf: "handles_wf (named_action_handles ex)"
  shows
    "(map_of (named_umrf_graphs ex) key = None \<longrightarrow>
        (\<exists>e. executeUmrfGraph ld key ex = (Some (TemotoErrorStack e), ex))) \<and>
     (\<forall>ugh. map_of (named_umrf_graphs ex) key = Some ugh \<longrightarrow>
        (checkState ugh \<noteq> GRAPH_INITIALIZED \<longrightarrow>
           (\<exists>e. executeUmrfGraph ld key ex = (Some (TemotoErrorStack e), ex))) \<and>
        (checkState ugh = GRAPH_INITIALIZED \<longrightarrow>
           (fst (executeUmrfGraph ld key ex) = None) =
             list_all (root_ready ld ugh) (getRootNodes ugh) \<and>
           (list_all (root_ready ld ugh) (getRootNodes ugh) \<longrightarrow>
              (\<exists>ugh'. map_of (named_umrf_graphs (snd (executeUmrfGraph ld key ex))) key = Some ugh' \<and>
                 graph_nodes ugh' =
                   map (\<lambda>n. if node_id n \<in> set (getRootNodes ugh)
                             then n\<lparr>node_state := NODE_ACTIVE\<rparr> else n) (graph_nodes ugh)) \<and>
              handle_calls (snd (executeUmrfGraph ld key ex)) =
                handle_calls ex @
                map InstantiateAction (sorted_list_of_set (set (getRootNodes ugh))) @
                map ExecuteActionThread (sorted_list_of_set (set (getRootNodes ugh))) \<and>
              (\<forall>i\<in>set (getRootNodes ugh).
                 \<exists>ah. map_of (named_action_handles (snd (executeUmrfGraph ld key ex))) i = Some ah \<and>
                      handle_state ah = HANDLE_RUNNING)) \<and>
           (\<not> list_all (root_ready ld ugh) (getRootNodes ugh) \<and>
            distinct (map fst (named_umrf_graphs ex)) \<and>
            list_all (\<lambda>i. map_of (named_action_handles ex) i = None) (getRootNodes ugh) \<longrightarrow>
              (\<not> list_all (handle_built ugh) (getRootNodes ugh) \<longrightarrow>
                 snd (executeUmrfGraph ld key ex) = ex) \<and>
              (list_all (handle_built ugh) (getRootNodes ugh) \<longrightarrow>
                 named_action_handles (snd (executeUmrfGraph ld key ex)) =
                   named_action_handles ex \<and>
                 (\<exists>ugh'. map_of (named_umrf_graphs (snd (executeUmrfGraph ld key ex))) key =
                            Some ugh' \<and>
                    graph_nodes ugh' =
                      map (\<lambda>n. if node_id n \<in> set (getRootNodes ugh)
                                then n\<lparr>node_state := NODE_FINISHED\<rparr> else n) (graph_nodes ugh)) \<and>
                 (\<exists>cs'. handle_calls (snd (executeUmrfGraph ld key ex)) =
                          handle_calls ex @ cs' @
                          map ClearAction (sorted_list_of_set (set (getRootNodes ugh))))))))"
proof (intro conjI allI impI)
  assume "map_of (named_umrf_graphs ex) key = None"
  then show "\<exists>e. executeUmrfGraph ld key ex = (Some (TemotoErrorStack e), ex)"
    by (simp add: executeUmrfGraph_def FORWARD_TEMOTO_ERROR_STACK_def)
next
  fix ugh
  assume "map_of (named_umrf_graphs ex) key = Some ugh" "checkState ugh \<noteq> GRAPH_INITIALIZED"
  then show "\<exists>e. executeUmrfGraph ld key ex = (Some (TemotoErrorStack e), ex)"
    by (simp add: executeUmrfGraph_def FORWARD_TEMOTO_ERROR_STACK_def)
next
  fix ugh
  assume g: "map_of (named_umrf_graphs ex) key = Some ugh"
    and st: "checkState ugh = GRAPH_INITIALIZED"
  note req = executeById_required [OF wf, of ld "getRootNodes ugh" ugh "handle_calls ex"]
  obtain r hs' ugh' cs'
    where run: "executeById ld (getRootNodes ugh) True (named_action_handles ex, ugh, handle_calls ex)
                = (r, hs', ugh', cs')"
    by (cases "executeById ld (getRootNodes ugh) True (named_action_handles ex, ugh, handle_calls ex)")
  have "(fst (executeUmrfGraph ld key ex) = None) = (r = None)"
    using g st run
    by (auto simp: executeUmrfGraph_def executeById_on_def split: option.splits thrown.splits)
  with req run
  show "(fst (executeUmrfGraph ld key ex) = None) = list_all (root_ready ld ugh) (getRootNodes ugh)"
    by simp
next
  fix ugh
  assume g: "map_of (named_umrf_graphs ex) key = Some ugh"
    and st: "checkState ugh = GRAPH_INITIALIZED"
    and ready: "list_all (root_ready ld ugh) (getRootNodes ugh)"
  let ?R = "getRootNodes ugh"
  let ?S = "sorted_list_of_set (set ?R)"
  let ?hs1 = "fold (\<lambda>kv. map_insert (fst kv) (snd kv))
                (fold (\<lambda>i. map_insert i (ActionHandle (the (getUmrfOf ugh i)))) ?R [])
                (named_action_handles ex)"
  from executeById_required [OF wf, of ld ?R ugh "handle_calls ex"] ready
  have run: "executeById ld ?R True (named_action_handles ex, ugh, handle_calls ex) =
               (None, (run_handles ?S ?hs1, fold setNodeActive ?S ugh,
                       handle_calls ex @ map InstantiateAction ?S @ map ExecuteActionThread ?S))"
    by simp
  have res: "executeUmrfGraph ld key ex =
               (None, ex\<lparr>named_action_handles := run_handles ?S ?hs1,
                         named_umrf_graphs :=
                           map_assign key (fold setNodeActive ?S ugh) (named_umrf_graphs ex),
                         handle_calls :=
                           handle_calls ex @ map InstantiateAction ?S @
                           map ExecuteActionThread ?S\<rparr>)"
    using g st run by (simp add: executeUmrfGraph_def executeById_on_def)
  have nodes: "graph_nodes (fold setNodeActive ?S ugh) =
                 map (\<lambda>n. if node_id n \<in> set ?R then n\<lparr>node_state := NODE_ACTIVE\<rparr> else n)
                   (graph_nodes ugh)"
    using fold_setNodeActive [of ?S ugh] by simp
  show "\<exists>ugh'. map_of (named_umrf_graphs (snd (executeUmrfGraph ld key ex))) key = Some ugh' \<and>
          graph_nodes ugh' =
            map (\<lambda>n. if node_id n \<in> set ?R then n\<lparr>node_state := NODE_ACTIVE\<rparr> else n)
              (graph_nodes ugh)"
    using res nodes map_of_map_assign [OF g, of "fold setNodeActive ?S ugh"] by simp
  show "handle_calls (snd (executeUmrfGraph ld key ex)) =
          handle_calls ex @ map InstantiateAction ?S @ map ExecuteActionThread ?S"
    using res by simp
  show "\<forall>i\<in>set ?R.
          \<exists>ah. map_of (named_action_handles (snd (executeUmrfGraph ld key ex))) i = Some ah \<and>
               handle_state ah = HANDLE_RUNNING"
  proof
    fix i assume i: "i \<in> set ?R"
    have present: "list_all (\<lambda>i. getUmrfOf ugh i \<noteq> None) ?R"
      using ready by (auto simp: list_all_iff root_ready_def split: option.splits)
    have "handles_wf []" by (simp add: handles_wf_def)
    from built_handles_wf [OF this present] i
    have "i \<in> fst ` set ?hs1" by (simp add: bulk_insert_keys)
    then obtain ah where ah: "map_of ?hs1 i = Some ah"
      by (cases "map_of ?hs1 i") (auto simp: map_of_eq_None_iff)
    from i have "i \<in> set ?S" by simp
    from run_handles_lookup [OF this ah] res
    show "\<exists>ah. map_of (named_action_handles (snd (executeUmrfGraph ld key ex))) i = Some ah \<and>
               handle_state ah = HANDLE_RUNNING"
      by simp
  qed
next
  fix ugh
  assume g: "map_of (named_umrf_graphs ex) key = Some ugh"
    and st: "checkState ugh = GRAPH_INITIALIZED"
    and h: "\<not> list_all (root_ready ld ugh) (getRootNodes ugh) \<and>
            distinct (map fst (named_umrf_graphs ex)) \<and>
            list_all (\<lambda>i. map_of (named_action_handles ex) i = None) (getRootNodes ugh)"
    and unbuilt: "\<not> list_all (handle_built ugh) (getRootNodes ugh)"
  from executeById_required_failure [OF wf, of "getRootNodes ugh" ld ugh "handle_calls ex"] h unbuilt
  have run: "snd (executeById ld (getRootNodes ugh) True
                    (named_action_handles ex, ugh, handle_calls ex)) =
             (named_action_handles ex, ugh, handle_calls ex)"
    by simp
  have same: "map_assign key ugh (named_umrf_graphs ex) = named_umrf_graphs ex"
    using h g by (intro map_assign_same) simp_all
  show "snd (executeUmrfGraph ld key ex) = ex"
    using g st run same
    by (cases "executeById ld (getRootNodes ugh) True
                 (named_action_handles ex, ugh, handle_calls ex)")
       (auto simp: executeUmrfGraph_def executeById_on_def split: option.splits thrown.splits)
next
  fix ugh
  assume g: "map_of (named_umrf_graphs ex) key = Some ugh"
    and st: "checkState ugh = GRAPH_INITIALIZED"
    and h: "\<not> list_all (root_ready ld ugh) (getRootNodes ugh) \<and>
            distinct (map fst (named_umrf_graphs ex)) \<and>
            list_all (\<lambda>i. map_of (named_action_handles ex) i = None) (getRootNodes ugh)"
    and built: "list_all (handle_built ugh) (getRootNodes ugh)"
  let ?R = "getRootNodes ugh"
  let ?S = "sorted_list_of_set (set ?R)"
  from executeById_required_failure [OF wf, of ?R ld ugh "handle_calls ex"] h built
  obtain ugh' cs'
    where run: "snd (executeById ld ?R True (named_action_handles ex, ugh, handle_calls ex)) =
                  (named_action_handles ex, ugh', handle_calls ex @ cs' @ map ClearAction ?S)"
      and nodes: "graph_nodes ugh' = finish_nodes ?R (graph_nodes ugh)"
    by auto
  have res: "snd (executeUmrfGraph ld key ex) =
               ex\<lparr>named_action_handles := named_action_handles ex,
                  named_umrf_graphs := map_assign key ugh' (named_umrf_graphs ex),
                  handle_calls := handle_calls ex @ cs' @ map ClearAction ?S\<rparr>"
    using g st run
    by (cases "executeById ld ?R True (named_action_handles ex, ugh, handle_calls ex)")
       (auto simp: executeUmrfGraph_def executeById_on_def split: option.splits thrown.splits)
  show "named_action_handles (snd (executeUmrfGraph ld key ex)) = named_action_handles ex"
    using res by simp
  show "\<exists>ugh'. map_of (named_umrf_graphs (snd (executeUmrfGraph ld key ex))) key = Some ugh' \<and>
          graph_nodes ugh' =
            map (\<lambda>n. if node_id n \<in> set ?R then n\<lparr>node_state := NODE_FINISHED\<rparr> else n)
              (graph_nodes ugh)"
    using res nodes map_of_map_assign [OF g, of ugh'] by (simp add: finish_nodes_def)
  show "\<exists>cs'. handle_calls (snd (executeUmrfGraph ld key ex)) =
               handle_calls ex @ cs' @ map ClearAction ?S"
    using res by simp
qed


theorem executeUmrfGraph_launch_witness:
  "handles_wf (named_action_handles pair_executor) \<and>
   fst (executeUmrfGraph example_loader ''pair'' pair_executor) = None \<and>
   handle_calls (snd (executeUmrfGraph example_loader ''pair'' pair_executor)) =
     [InstantiateAction 0, InstantiateAction 1, ExecuteActionThread 0, ExecuteActionThread 1] \<and>
   map (\<lambda>kv. map (\<lambda>n. (node_id n, node_state n)) (graph_nodes (snd kv)))
     (named_umrf_graphs (snd (executeUmrfGraph example_loader ''pair'' pair_executor))) =
     [[(0, NODE_ACTIVE), (1, NODE_ACTIVE), (2, NODE_NOT_STARTED)]] \<and>
   snd (executeUmrfGraph example_loader ''other'' pair_executor) = pair_executor \<and>
   fst (executeUmrfGraph example_loader ''other'' pair_executor) \<noteq> None \<and>
   fst (executeUmrfGraph failing_loader ''pair'' pair_executor) \<noteq> None \<and>
   named_action_handles (snd (executeUmrfGraph failing_loader ''pair'' pair_executor)) = [] \<and>
   handle_calls (snd (executeUmrfGraph failing_loader ''pair'' pair_executor)) =
     [InstantiateAction 0, InstantiateAction 1, ExecuteActionThread 0, ExecuteActionThread 1,
      ClearAction 0, ClearAction 1] \<and>
   map (\<lambda>kv. map (\<lambda>n. (node_id n, node_state n)) (graph_nodes (snd kv)))
     (named_umrf_graphs (snd (executeUmrfGraph failing_loader ''pair'' pair_executor))) =
     [[(0, NODE_FINISHED), (1, NODE_FINISHED), (2, NODE_NOT_STARTED)]] \<and>
   fst (executeUmrfGraph example_loader ''unbuilt'' unbuilt_executor) \<noteq> None \<and>
   snd (executeUmrfGraph example_loader ''unbuilt'' unbuilt_executor) = unbuilt_executor"
proof -
  have wf: "handles_wf (named_action_handles pair_executor)"
    and wf': "handles_wf (named_action_handles unbuilt_executor)"
    by (simp_all add: pair_executor_def unbuilt_executor_def handles_wf_def)
  note launch = executeUmrfGraph_launch [OF wf, of "''pair''" example_loader]
    and missing = executeUmrfGraph_launch [OF wf, of "''other''" example_loader]
    and failing = executeUmrfGraph_launch [OF wf, of "''pair''" failing_loader]
    and unbuilt = executeUmrfGraph_launch [OF wf', of "''unbuilt''" example_loader]
  have g: "map_of (named_umrf_graphs pair_executor) ''pair'' = Some pair_graph"
    and no: "map_of (named_umrf_graphs pair_executor) ''other'' = None"
    and st: "checkState pair_graph = GRAPH_INITIALIZED"
    and roots: "getRootNodes pair_graph = [0, 1]"
    and keys: "distinct (map fst (named_umrf_graphs pair_executor))"
    and fresh: "list_all (\<lambda>i. map_of (named_action_handles pair_executor) i = None) [0, 1]"
    by (simp_all add: pair_executor_def pair_graph_def example_node_def example_umrf_def
          example_relation_def graph_defs)
  have g': "map_of (named_umrf_graphs unbuilt_executor) ''unbuilt'' = Some unbuilt_graph"
    and st': "checkState unbuilt_graph = GRAPH_INITIALIZED"
    and roots': "getRootNodes unbuilt_graph = [0, 1]"
    and keys': "distinct (map fst (named_umrf_graphs unbuilt_executor))"
    and fresh': "list_all (\<lambda>i. map_of (named_action_handles unbuilt_executor) i = None) [0, 1]"
    by (simp_all add: unbuilt_executor_def unbuilt_graph_def example_node_def example_umrf_def
          example_relation_def graph_defs)
  have ready: "list_all (root_ready example_loader pair_graph) [0, 1]"
    and unready: "\<not> list_all (root_ready failing_loader pair_graph) [0, 1]"
    and built: "list_all (handle_built pair_graph) [0, 1]"
    by (simp_all add: root_ready_def handle_built_def example_loader_def failing_loader_def
          pair_graph_def example_node_def example_umrf_def graph_defs isUmrfCorrect_def)
  have unready': "\<not> list_all (root_ready example_loader unbuilt_graph) [0, 1]"
    and unbuilt': "\<not> list_all (handle_built unbuilt_graph) [0, 1]"
    by (simp_all add: root_ready_def handle_built_def example_loader_def unbuilt_graph_def
          example_node_def example_umrf_def graph_defs isUmrfCorrect_def)
  have sorted: "sorted_list_of_set (set [0, 1 :: uint]) = [0, 1]"
    by (simp add: sorted_list_of_set.idem_if_sorted_distinct)
  from missing no have m: "snd (executeUmrfGraph example_loader ''other'' pair_executor) = pair_executor"
    "fst (executeUmrfGraph example_loader ''other'' pair_executor) \<noteq> None"
    by auto
  from failing g st roots unready keys fresh built
  have f: "fst (executeUmrfGraph failing_loader ''pair'' pair_executor) \<noteq> None"
    and fh: "named_action_handles (snd (executeUmrfGraph failing_loader ''pair'' pair_executor)) =
               named_action_handles pair_executor"
    by simp_all
  from unbuilt g' st' roots' unready' keys' fresh' unbuilt'
  have u: "fst (executeUmrfGraph example_loader ''unbuilt'' unbuilt_executor) \<noteq> None"
    "snd (executeUmrfGraph example_loader ''unbuilt'' unbuilt_executor) = unbuilt_executor"
    by simp_all
  from launch g st roots ready sorted
  have ok: "fst (executeUmrfGraph example_loader ''pair'' pair_executor) = None"
    and calls: "handle_calls (snd (executeUmrfGraph example_loader ''pair'' pair_executor)) =
      [InstantiateAction 0, InstantiateAction 1, ExecuteActionThread 0, ExecuteActionThread 1]"
    by (simp_all add: pair_executor_def)
  have nodes: "map (\<lambda>kv. map (\<lambda>n. (node_id n, node_state n)) (graph_nodes (snd kv)))
     (named_umrf_graphs (snd (executeUmrfGraph example_loader ''pair'' pair_executor))) =
     [[(0, NODE_ACTIVE), (1, NODE_ACTIVE), (2, NODE_NOT_STARTED)]]"
    by (simp add: executeUmrfGraph_def pair_executor_def pair_graph_def example_node_def
          example_umrf_def example_relation_def example_loader_def graph_defs handle_defs exec_defs)
  have fstate: "handle_calls (snd (executeUmrfGraph failing_loader ''pair'' pair_executor)) =
     [InstantiateAction 0, InstantiateAction 1, ExecuteActionThread 0, ExecuteActionThread 1,
      ClearAction 0, ClearAction 1]"
    "map (\<lambda>kv. map (\<lambda>n. (node_id n, node_state n)) (graph_nodes (snd kv)))
     (named_umrf_graphs (snd (executeUmrfGraph failing_loader ''pair'' pair_executor))) =
     [[(0, NODE_FINISHED), (1, NODE_FINISHED), (2, NODE_NOT_STARTED)]]"
    by (simp_all add: executeUmrfGraph_def pair_executor_def pair_graph_def example_node_def
          example_umrf_def example_relation_def failing_loader_def graph_defs handle_defs exec_defs
          CREATE_TEMOTO_ERROR_STACK_def FORWARD_TEMOTO_ERROR_STACK_def)
  from fh have fh': "named_action_handles (snd (executeUmrfGraph failing_loader ''pair'' pair_executor)) = []"
    by (simp add: pair_executor_def)
  from wf ok calls nodes m f fh' fstate u show ?thesis by simp
qed

text \<open>
  Claim C7 as stated fails in one direction: the graph exists and is initialised, and the
  call still raises an error, because starting the action of a root throws.
\<close>

theorem executeUmrfGraph_root_failure_counterexample:
  "graphExists pair_executor ''pair'' \<and>
   map_of (named_umrf_graphs pair_executor) ''pair'' = Some pair_graph \<and>
   checkState pair_graph = GRAPH_INITIALIZED \<and>
   fst (executeUmrfGraph failing_loader ''pair'' pair_executor) =
     Some (TemotoErrorStack
       [''executeUmrfGraph'', ''executeById'', ''Cannot execute the actions because: no thread''])"
  by (simp add: executeUmrfGraph_def graphExists_def pair_executor_def pair_graph_def
        example_node_def example_umrf_def example_relation_def failing_loader_def graph_defs
        handle_defs exec_defs CREATE_TEMOTO_ERROR_STACK_def FORWARD_TEMOTO_ERROR_STACK_def)

end
